theory Spec2Isabelle
  imports Complex_Main "HOL-Library.Word"
begin

section \<open>Conventions of the embedding\<close>

text \<open>
  The routing engine of the evacuation system is C code: the graph store, the risk update,
  the A* planner and the direction translator live in
  \<^verbatim>\<open>software/path_planning/path_planning.c\<close>; the replanning step lives in
  \<^verbatim>\<open>software/main.c\<close>.

  \<^item> A C \<^verbatim>\<open>int\<close> that carries an identifier, a flag or a coordinate is an \<^typ>\<open>int\<close>; the
    only operations on these values are comparison and conversion to \<^verbatim>\<open>float\<close>, so no
    wrap-around can occur.
  \<^item> A C \<^verbatim>\<open>uint16_t\<close> is a \<^typ>\<open>16 word\<close>.
  \<^item> A C \<^verbatim>\<open>float\<close> of the graph store, the planner and the replanning step is idealised
    as a \<^typ>\<open>real\<close>: rounding, infinities and NaN are not modelled there, and the
    conversion of a node coordinate to the \<^verbatim>\<open>int\<close> field of a path node discards the
    fraction.
  \<^item> In the direction translator every \<^verbatim>\<open>float\<close> holds an integer, and the rounding of
    the 32-bit format is modelled: the conversion of an \<^verbatim>\<open>int\<close> and the subtraction of two
    such values give the nearest value with a significand of 24 bits, ties to even.
  \<^item> A fixed array together with its element count (\<^verbatim>\<open>nodes[MAX_NODES]\<close> and
    \<^verbatim>\<open>num_nodes\<close>) is the list of its first \<^verbatim>\<open>num_nodes\<close> elements.
  \<^item> The process-wide \<^verbatim>\<open>static graph_t graph\<close> is passed in and returned explicitly.
  \<^item> In the operations of the graph store and the planner every \<^verbatim>\<open>return -1\<close> is a value
    \<open>Inl e\<close> where \<open>e\<close> names the branch that was taken, and \<^verbatim>\<open>return 0\<close> is \<open>Inr\<close>.
    The direction translator returns its integer code, \<open>-1\<close> included, as the source does.
  \<^item> Output on \<^verbatim>\<open>stdout\<close> and \<^verbatim>\<open>stderr\<close> is left out.
\<close>

datatype error =
    DuplicateId | CapacityExceeded | UnknownEndpoint | NullArgument
  | CannotOpenFile | MissingNodesHeader | NodeInsertFailed | EdgeInsertFailed
  | AreaNotFound | IndexLookupFailed | PathNotFound | PathTooLong

section \<open>Graph store\<close>

definition MAP_WIDTH :: nat where "MAP_WIDTH = 20"
definition MAP_HEIGHT :: nat where "MAP_HEIGHT = 20"
definition MAX_PATH_LENGTH :: nat where "MAX_PATH_LENGTH = MAP_WIDTH * MAP_HEIGHT"
definition MAX_NODES :: nat where "MAX_NODES = 100"
definition MAX_EDGES :: nat where "MAX_EDGES = 200"

record graph_node_t =
  node_id :: int
  area_id :: int
  node_x :: real
  node_y :: real

record graph_edge_t =
  edge_id :: int
  start_node :: int
  end_node :: int
  distance :: real
  risk_factor :: real

record graph_t =
  nodes :: "graph_node_t list"
  edges :: "graph_edge_t list"

record EnvironmentalData_t =
  tvoc_ppb :: "16 word"
  eco2_ppm :: "16 word"
  mq2_voltage :: real
  mq2_concentration :: real

text \<open>\<^verbatim>\<open>path_planning_init\<close> and \<^verbatim>\<open>path_planning_cleanup\<close> zero the whole structure.\<close>

definition path_planning_init :: graph_t where
  "path_planning_init = \<lparr>nodes = [], edges = []\<rparr>"

definition path_planning_cleanup :: "graph_t \<Rightarrow> graph_t" where
  "path_planning_cleanup g = \<lparr>nodes = [], edges = []\<rparr>"

text \<open>The duplicate scans of \<^verbatim>\<open>add_node\<close> and \<^verbatim>\<open>add_edge\<close>: return at the first hit.\<close>

fun node_id_exists :: "graph_node_t list \<Rightarrow> int \<Rightarrow> bool" where
  "node_id_exists [] k = False"
| "node_id_exists (n # ns) k = (if node_id n = k then True else node_id_exists ns k)"

fun edge_id_exists :: "graph_edge_t list \<Rightarrow> int \<Rightarrow> bool" where
  "edge_id_exists [] k = False"
| "edge_id_exists (e # es) k = (if edge_id e = k then True else edge_id_exists es k)"

definition add_node :: "int \<Rightarrow> int \<Rightarrow> real \<Rightarrow> real \<Rightarrow> graph_t \<Rightarrow> (error + unit) \<times> graph_t" where
  "add_node nid aid x y g =
     (if node_id_exists (nodes g) nid then (Inl DuplicateId, g)
      else if MAX_NODES \<le> length (nodes g) then (Inl CapacityExceeded, g)
      else (Inr (),
            g\<lparr>nodes := nodes g @ [\<lparr>node_id = nid, area_id = aid, node_x = x, node_y = y\<rparr>]\<rparr>))"

text \<open>
  The endpoint scan of \<^verbatim>\<open>add_edge\<close> runs over all nodes and raises the two flags
  \<^verbatim>\<open>start_found\<close> and \<^verbatim>\<open>end_found\<close>.
\<close>

fun endpoints_found :: "graph_node_t list \<Rightarrow> int \<Rightarrow> int \<Rightarrow> bool \<times> bool \<Rightarrow> bool \<times> bool" where
  "endpoints_found [] s t flags = flags"
| "endpoints_found (n # ns) s t (sf, ef) =
     endpoints_found ns s t
       (if node_id n = s then True else sf, if node_id n = t then True else ef)"

definition add_edge :: "int \<Rightarrow> int \<Rightarrow> int \<Rightarrow> real \<Rightarrow> graph_t \<Rightarrow> (error + unit) \<times> graph_t" where
  "add_edge eid s t d g =
     (if edge_id_exists (edges g) eid then (Inl DuplicateId, g)
      else if MAX_EDGES \<le> length (edges g) then (Inl CapacityExceeded, g)
      else (case endpoints_found (nodes g) s t (False, False) of
              (start_found, end_found) \<Rightarrow>
                if \<not> start_found \<or> \<not> end_found then (Inl UnknownEndpoint, g)
                else (Inr (),
                      g\<lparr>edges := edges g @
                          [\<lparr>edge_id = eid, start_node = s, end_node = t,
                            distance = d, risk_factor = 0\<rparr>]\<rparr>)))"

section \<open>Risk update\<close>

text \<open>
  \<^verbatim>\<open>start_risk = (float)(tvoc_ppb + eco2_ppm) / 2000.0\<close>: both operands are promoted to
  \<^verbatim>\<open>int\<close> before the addition, so the sum of two 16-bit values does not wrap. The loop
  also looks up the area ids of the two endpoints of each edge, and uses neither: the risk
  of both endpoints is the one value computed from the reading.
\<close>

definition start_risk :: "EnvironmentalData_t \<Rightarrow> real" where
  "start_risk env = real (unat (tvoc_ppb env) + unat (eco2_ppm env)) / 2000"

definition update_edge_risk :: "EnvironmentalData_t \<Rightarrow> graph_edge_t \<Rightarrow> graph_edge_t" where
  "update_edge_risk env e =
     (let sr = start_risk env;
          er = sr;
          r0 = (if sr > er then sr else er);
          r1 = (if r0 > 1 then 1 else r0);
          r2 = (if r1 < 0 then 0 else r1)
      in e\<lparr>risk_factor := r2\<rparr>)"

definition update_edge_risks :: "EnvironmentalData_t option \<Rightarrow> graph_t \<Rightarrow> (error + unit) \<times> graph_t" where
  "update_edge_risks env_data g =
     (case env_data of
        None \<Rightarrow> (Inl NullArgument, g)
      | Some env \<Rightarrow> (Inr (), g\<lparr>edges := map (update_edge_risk env) (edges g)\<rparr>))"

section \<open>Map loading\<close>

text \<open>
  \<^verbatim>\<open>load_map_data\<close> reads the file line by line with \<^verbatim>\<open>fgets\<close>. The file is the list of
  the strings \<^verbatim>\<open>fgets\<close> delivers, or \<open>None\<close> when \<^verbatim>\<open>fopen\<close> fails. The two \<^verbatim>\<open>sscanf\<close>
  calls belong to the C library, so they are parameters: \<open>scan_node l\<close> is \<open>Some\<close> of the
  four converted fields when \<^verbatim>\<open>sscanf(l, "%d %d %f %f", ...)\<close> returns 4, and \<open>scan_edge\<close>
  likewise for \<^verbatim>\<open>"%d %d %d %f"\<close>. \<^verbatim>\<open>strncmp(line, "NODES", 5) == 0\<close> holds when the first
  five characters of the line are \<^verbatim>\<open>NODES\<close>.
\<close>

type_synonym node_scanner = "string \<Rightarrow> (int \<times> int \<times> real \<times> real) option"
type_synonym edge_scanner = "string \<Rightarrow> (int \<times> int \<times> int \<times> real) option"

fun load_edges :: "edge_scanner \<Rightarrow> string list \<Rightarrow> graph_t \<Rightarrow> (error + unit) \<times> graph_t" where
  "load_edges scan_edge [] g = (Inr (), g)"
| "load_edges scan_edge (l # ls) g =
     (case scan_edge l of
        Some (eid, s, t, d) \<Rightarrow>
          (case add_edge eid s t d g of
             (Inl e, g') \<Rightarrow> (Inl EdgeInsertFailed, g')
           | (Inr u, g') \<Rightarrow> load_edges scan_edge ls g')
      | None \<Rightarrow> load_edges scan_edge ls g)"

fun load_nodes ::
  "node_scanner \<Rightarrow> edge_scanner \<Rightarrow> string list \<Rightarrow> graph_t \<Rightarrow> (error + unit) \<times> graph_t" where
  "load_nodes scan_node scan_edge [] g = load_edges scan_edge [] g"
| "load_nodes scan_node scan_edge (l # ls) g =
     (if take 5 l = ''EDGES'' then load_edges scan_edge ls g
      else (case scan_node l of
              Some (nid, aid, x, y) \<Rightarrow>
                (case add_node nid aid x y g of
                   (Inl e, g') \<Rightarrow> (Inl NodeInsertFailed, g')
                 | (Inr u, g') \<Rightarrow> load_nodes scan_node scan_edge ls g')
            | None \<Rightarrow> load_nodes scan_node scan_edge ls g))"

definition load_map_data ::
  "node_scanner \<Rightarrow> edge_scanner \<Rightarrow> string list option \<Rightarrow> graph_t \<Rightarrow> (error + unit) \<times> graph_t" where
  "load_map_data scan_node scan_edge file g =
     (case file of
        None \<Rightarrow> (Inl CannotOpenFile, g)
      | Some [] \<Rightarrow> (Inl MissingNodesHeader, g)
      | Some (l # ls) \<Rightarrow>
          if take 5 l \<noteq> ''NODES'' then (Inl MissingNodesHeader, g)
          else load_nodes scan_node scan_edge ls g)"

text \<open>Whether a list of lines contains the line that starts the edge section.\<close>

definition edges_header_seen :: "string list \<Rightarrow> bool" where
  "edges_header_seen ls = list_ex (\<lambda>l. take 5 l = ''EDGES'') ls"

section \<open>Direction translator\<close>

text \<open>
  A \<^verbatim>\<open>path_t\<close> is the list of its first \<^verbatim>\<open>num_nodes\<close> entries with the two metrics; the
  planner writes the fields \<^verbatim>\<open>node_id\<close>, \<^verbatim>\<open>x\<close>, \<^verbatim>\<open>y\<close> and \<^verbatim>\<open>area_id\<close> of a
  \<^verbatim>\<open>MapNode_t\<close> and no other, and \<^verbatim>\<open>timestamp\<close> is the wall clock. The coordinates of a
  \<^verbatim>\<open>MapNode_t\<close> are C integers. A null pointer is \<open>None\<close>.
\<close>

record MapNode_t =
  mn_node_id :: int
  mn_x :: int
  mn_y :: int
  mn_area_id :: int

record path_t =
  path_nodes :: "MapNode_t list"
  total_distance :: real
  total_risk :: real

definition num_nodes :: "path_t \<Rightarrow> int" where
  "num_nodes p = int (length (path_nodes p))"

text \<open>
  \<^verbatim>\<open>float x1 = path->nodes[0].x\<close> converts an \<^verbatim>\<open>int\<close> to a 32-bit \<^verbatim>\<open>float\<close>, and
  \<^verbatim>\<open>float dx = x2 - x1\<close> subtracts two such values in that format. Both results are
  integers, rounded to the nearest value whose significand has 24 bits, a tie going to the
  even significand. \<open>float_ulp m u\<close> doubles the unit \<open>u\<close> until the magnitude \<open>m\<close> is
  below \<open>2\<^sup>2\<^sup>4\<close> units; \<open>round_to_float n\<close> is the \<^verbatim>\<open>float\<close> nearest to the integer \<open>n\<close>.
  The magnitudes that occur are at most \<open>2\<^sup>3\<^sup>2\<close>, far below the largest \<^verbatim>\<open>float\<close>.
\<close>

function float_ulp :: "nat \<Rightarrow> nat \<Rightarrow> nat" where
  "float_ulp m u = (if u = 0 \<or> m < 2 ^ 24 * u then u else float_ulp m (2 * u))"
  by pat_completeness auto
termination
  by (relation "measure (\<lambda>(m, u). m - u)") auto

declare float_ulp.simps [simp del]

definition round_to_float :: "int \<Rightarrow> int" where
  "round_to_float n =
     (let m = nat \<bar>n\<bar>;
          u = float_ulp m 1;
          q = m div u;
          r = m mod u;
          s = (if 2 * r < u then q else if u < 2 * r then q + 1
               else if even q then q else q + 1)
      in sgn n * int (s * u))"

definition get_direction_from_path :: "path_t option \<Rightarrow> int" where
  "get_direction_from_path path =
     (case path of
        None \<Rightarrow> - 1
      | Some p \<Rightarrow>
          if num_nodes p < 2 then - 1
          else
            (let x1 = round_to_float (mn_x (path_nodes p ! 0));
                 y1 = round_to_float (mn_y (path_nodes p ! 0));
                 x2 = round_to_float (mn_x (path_nodes p ! 1));
                 y2 = round_to_float (mn_y (path_nodes p ! 1));
                 dx = round_to_float (x2 - x1);
                 dy = round_to_float (y2 - y1)
             in if \<bar>dx\<bar> > \<bar>dy\<bar> then (if dx > 0 then 0 else 2)
                else (if dy > 0 then 3 else 1)))"

section \<open>Replanning step\<close>

text \<open>
  The structures of \<^verbatim>\<open>software/main.c\<close>. The field \<^verbatim>\<open>id\<close> of an \<^verbatim>\<open>Area\<close> is
  \<open>area_ident\<close>, the fields \<^verbatim>\<open>from\<close>, \<^verbatim>\<open>to\<close> and \<^verbatim>\<open>distance\<close> of a \<^verbatim>\<open>Connection\<close> carry the
  prefix \<open>conn_\<close>, and the fields \<^verbatim>\<open>length\<close> and \<^verbatim>\<open>total_distance\<close> of an
  \<^verbatim>\<open>EvacuationPath\<close> are \<open>path_length\<close> and \<open>ep_total_distance\<close>. An \<^verbatim>\<open>EvacuationPath\<close>
  keeps its array of \<^verbatim>\<open>MAX_PATH_LENGTH\<close> = 50 area ids and its own \<^verbatim>\<open>length\<close> field.
\<close>

definition EP_MAX_PATH_LENGTH :: nat where "EP_MAX_PATH_LENGTH = 50"

record Area =
  area_ident :: int
  area_name :: string
  is_exit :: int
  hazard_level :: real

record Connection =
  conn_from :: int
  conn_to :: int
  conn_distance :: real
  blocked :: int

record EvacuationPath =
  area_ids :: "int list"
  path_length :: int
  ep_total_distance :: real

record ShoppingMallMap =
  areas :: "Area list"
  connections :: "Connection list"

fun first_exit :: "Area list \<Rightarrow> int" where
  "first_exit [] = - 1"
| "first_exit (a # rest) = (if is_exit a \<noteq> 0 then area_ident a else first_exit rest)"

definition find_nearest_exit :: "ShoppingMallMap \<Rightarrow> int \<Rightarrow> int" where
  "find_nearest_exit m current_area = first_exit (areas m)"

text \<open>The inner loop of \<^verbatim>\<open>find_evacuation_path\<close>: the first connection joining the two
  areas in either direction adds its distance, then \<^verbatim>\<open>break\<close>.\<close>

fun add_connection_distance :: "Connection list \<Rightarrow> int \<Rightarrow> int \<Rightarrow> real \<Rightarrow> real" where
  "add_connection_distance [] a b td = td"
| "add_connection_distance (c # cs) a b td =
     (if (conn_from c = a \<and> conn_to c = b) \<or> (conn_from c = b \<and> conn_to c = a)
      then td + conn_distance c
      else add_connection_distance cs a b td)"

definition find_evacuation_path :: "ShoppingMallMap \<Rightarrow> int \<Rightarrow> int \<Rightarrow> EvacuationPath" where
  "find_evacuation_path m start_area end_area =
     (let ids = (replicate EP_MAX_PATH_LENGTH 0)[0 := start_area, 1 := end_area];
          len = 2 :: int
      in \<lparr>area_ids = ids, path_length = len,
          ep_total_distance =
            fold (\<lambda>i td. add_connection_distance (connections m) (ids ! i) (ids ! (i + 1)) td)
              [0 ..< nat (len - 1)] 0\<rparr>)"

text \<open>The two nested loops of \<^verbatim>\<open>update_path_dynamically\<close>: every hit takes the same
  early return, so each loop answers whether it has a hit.\<close>

fun area_is_hazardous :: "Area list \<Rightarrow> int \<Rightarrow> bool" where
  "area_is_hazardous [] aid = False"
| "area_is_hazardous (a # rest) aid =
     (if area_ident a = aid \<and> hazard_level a > 0.8 then True else area_is_hazardous rest aid)"

fun path_is_hazardous :: "Area list \<Rightarrow> int list \<Rightarrow> bool" where
  "path_is_hazardous ars [] = False"
| "path_is_hazardous ars (aid # aids) =
     (if area_is_hazardous ars aid then True else path_is_hazardous ars aids)"

definition update_path_dynamically ::
  "ShoppingMallMap \<Rightarrow> EvacuationPath \<Rightarrow> int \<Rightarrow> EvacuationPath" where
  "update_path_dynamically m path current_area =
     (if path_is_hazardous (areas m) (take (nat (path_length path)) (area_ids path))
      then (let nearest_exit = find_nearest_exit m current_area
            in find_evacuation_path m current_area nearest_exit)
      else path)"

section \<open>Path planner\<close>

text \<open>
  The local arrays of \<^verbatim>\<open>find_safe_path\<close> are functions of the index; an index that is
  \<^verbatim>\<open>-1\<close> in the source (no predecessor, node not found, empty open set) is \<open>None\<close>.
\<close>

record astar_t =
  g_score :: "nat \<Rightarrow> real"
  f_score :: "nat \<Rightarrow> real"
  prev_node_idx :: "nat \<Rightarrow> nat option"
  open_set :: "nat \<Rightarrow> bool"
  closed_set :: "nat \<Rightarrow> bool"

definition FLT_MAX :: real where
  "FLT_MAX = 340282346638528859811704183484516925440"

text \<open>The area lookup at the head of \<^verbatim>\<open>find_safe_path\<close>: one pass over all nodes that
  assigns \<^verbatim>\<open>start_node_id\<close> and \<^verbatim>\<open>end_node_id\<close> at every match.\<close>

fun resolve_areas :: "graph_node_t list \<Rightarrow> int \<Rightarrow> int \<Rightarrow> int \<times> int \<Rightarrow> int \<times> int" where
  "resolve_areas [] start_area_id end_area_id ids = ids"
| "resolve_areas (n # ns) start_area_id end_area_id (start_node_id, end_node_id) =
     resolve_areas ns start_area_id end_area_id
       (if area_id n = start_area_id then node_id n else start_node_id,
        if area_id n = end_area_id then node_id n else end_node_id)"

fun find_node_index_by_id :: "graph_node_t list \<Rightarrow> int \<Rightarrow> nat option" where
  "find_node_index_by_id [] k = None"
| "find_node_index_by_id (n # ns) k =
     (if node_id n = k then Some 0 else map_option Suc (find_node_index_by_id ns k))"

definition heuristic :: "graph_node_t list \<Rightarrow> nat \<Rightarrow> nat \<Rightarrow> real" where
  "heuristic ns current_node_idx target_node_idx =
     (let dx = node_x (ns ! current_node_idx) - node_x (ns ! target_node_idx);
          dy = node_y (ns ! current_node_idx) - node_y (ns ! target_node_idx)
      in sqrt (dx * dx + dy * dy))"

definition astar_init :: "graph_node_t list \<Rightarrow> nat \<Rightarrow> nat \<Rightarrow> astar_t" where
  "astar_init ns u_idx v_idx =
     \<lparr>g_score = (\<lambda>i. FLT_MAX)(u_idx := 0),
      f_score = (\<lambda>i. FLT_MAX)(u_idx := heuristic ns u_idx v_idx),
      prev_node_idx = (\<lambda>i. None),
      open_set = (\<lambda>i. False)(u_idx := True),
      closed_set = (\<lambda>i. False)\<rparr>"

text \<open>The scan for the open node of lowest \<^verbatim>\<open>f_score\<close>: a later index replaces the
  candidate only when its score is strictly lower.\<close>

definition lowest_f_step :: "astar_t \<Rightarrow> nat \<Rightarrow> real \<times> nat option \<Rightarrow> real \<times> nat option" where
  "lowest_f_step st i best =
     (if open_set st i \<and> f_score st i < fst best then (f_score st i, Some i) else best)"

definition lowest_f_open :: "nat \<Rightarrow> astar_t \<Rightarrow> nat option" where
  "lowest_f_open n st = snd (fold (lowest_f_step st) [0 ..< n] (FLT_MAX, None))"

text \<open>The weight applied to an edge when it is relaxed.\<close>

definition risk_weight :: "graph_edge_t \<Rightarrow> real" where
  "risk_weight e = 1 + 10 * risk_factor e"

definition edge_cost :: "graph_edge_t \<Rightarrow> real" where
  "edge_cost e = distance e * risk_weight e"

definition relax_edge :: "graph_node_t list \<Rightarrow> nat \<Rightarrow> nat \<Rightarrow> graph_edge_t \<Rightarrow> astar_t \<Rightarrow> astar_t" where
  "relax_edge ns current_idx v_idx e st =
     (if start_node e = node_id (ns ! current_idx) then
        (case find_node_index_by_id ns (end_node e) of
           None \<Rightarrow> st
         | Some neighbor_idx \<Rightarrow>
             if \<not> closed_set st neighbor_idx then
               (let tentative_g_score = g_score st current_idx + edge_cost e
                in if \<not> open_set st neighbor_idx \<or> tentative_g_score < g_score st neighbor_idx
                   then st\<lparr>prev_node_idx := (prev_node_idx st)(neighbor_idx := Some current_idx),
                           g_score := (g_score st)(neighbor_idx := tentative_g_score),
                           f_score := (f_score st)(neighbor_idx :=
                                         tentative_g_score + heuristic ns neighbor_idx v_idx),
                           open_set := (open_set st)(neighbor_idx := True)\<rparr>
                   else st)
             else st)
      else st)"

definition explore_neighbors :: "graph_t \<Rightarrow> nat \<Rightarrow> nat \<Rightarrow> astar_t \<Rightarrow> astar_t" where
  "explore_neighbors g current_idx v_idx st =
     fold (relax_edge (nodes g) current_idx v_idx) (edges g) st"

definition close_node :: "nat \<Rightarrow> astar_t \<Rightarrow> astar_t" where
  "close_node current_idx st =
     st\<lparr>open_set := (open_set st)(current_idx := False),
        closed_set := (closed_set st)(current_idx := True)\<rparr>"

text \<open>What is left to do for the search: twice the nodes not yet closed, plus the nodes
  that are open and closed at once.\<close>

definition search_measure :: "graph_t \<times> nat \<times> astar_t \<Rightarrow> nat" where
  "search_measure = (\<lambda>(g, v_idx, st).
     2 * card {i. i < length (nodes g) \<and> \<not> closed_set st i}
       + card {i. i < length (nodes g) \<and> open_set st i \<and> closed_set st i})"

lemma lowest_f_fold:
  "snd (fold (lowest_f_step st) [0 ..< n] (m, None)) = Some c \<Longrightarrow> c < n \<and> open_set st c"
proof (induction n arbitrary: c)
  case 0
  then show ?case by simp
next
  case (Suc n)
  obtain m' c' where r: "fold (lowest_f_step st) [0 ..< n] (m, None) = (m', c')"
    by (cases "fold (lowest_f_step st) [0 ..< n] (m, None)")
  then have "fold (lowest_f_step st) [0 ..< Suc n] (m, None) = lowest_f_step st n (m', c')"
    by simp
  with Suc.prems have s: "snd (lowest_f_step st n (m', c')) = Some c"
    by simp
  show ?case
  proof (cases "open_set st n \<and> f_score st n < m'")
    case True
    with s show ?thesis by (simp add: lowest_f_step_def)
  next
    case False
    with s have "c' = Some c" by (simp add: lowest_f_step_def)
    with Suc.IH r have "c < n \<and> open_set st c" by simp
    then show ?thesis by simp
  qed
qed

lemma lowest_f_open_Some: "lowest_f_open n st = Some c \<Longrightarrow> c < n \<and> open_set st c"
  unfolding lowest_f_open_def by (rule lowest_f_fold)

lemma relax_edge_closed: "closed_set (relax_edge ns c v e st) = closed_set st"
  by (simp add: relax_edge_def Let_def split: option.splits)

lemma relax_edge_open:
  "open_set (relax_edge ns c v e st) i \<Longrightarrow> open_set st i \<or> \<not> closed_set st i"
  by (auto simp: relax_edge_def Let_def split: option.splits if_splits)

lemma fold_relax_closed: "closed_set (fold (relax_edge ns c v) es st) = closed_set st"
  by (induction es arbitrary: st) (simp_all add: relax_edge_closed)

lemma fold_relax_open:
  "open_set (fold (relax_edge ns c v) es st) i \<Longrightarrow> open_set st i \<or> \<not> closed_set st i"
proof (induction es arbitrary: st)
  case Nil
  then show ?case by simp
next
  case (Cons e es)
  from Cons.prems have "open_set (fold (relax_edge ns c v) es (relax_edge ns c v e st)) i"
    by simp
  from Cons.IH [OF this]
  have "open_set (relax_edge ns c v e st) i \<or> \<not> closed_set st i"
    by (simp add: relax_edge_closed)
  then show ?case using relax_edge_open by blast
qed

lemma search_measure_decreases:
  assumes "lowest_f_open (length (nodes g)) st = Some c"
  shows "search_measure (g, v, explore_neighbors g c v (close_node c st))
           < search_measure (g, v, st)"
proof -
  let ?n = "length (nodes g)"
  let ?st' = "explore_neighbors g c v (close_node c st)"
  let ?A = "{i. i < ?n \<and> \<not> closed_set st i}"
  let ?B = "{i. i < ?n \<and> open_set st i \<and> closed_set st i}"
  let ?A' = "{i. i < ?n \<and> \<not> closed_set ?st' i}"
  let ?B' = "{i. i < ?n \<and> open_set ?st' i \<and> closed_set ?st' i}"
  from assms have c: "c < ?n" "open_set st c" using lowest_f_open_Some by blast+
  have cl: "closed_set ?st' = (closed_set st)(c := True)"
    by (simp add: explore_neighbors_def fold_relax_closed close_node_def)
  have op: "i \<noteq> c \<and> open_set st i \<and> closed_set st i"
    if h: "open_set ?st' i \<and> closed_set ?st' i" for i
  proof -
    from h have "open_set (close_node c st) i \<or> \<not> closed_set (close_node c st) i"
      unfolding explore_neighbors_def using fold_relax_open by blast
    moreover from h have "closed_set (close_node c st) i"
      by (simp add: explore_neighbors_def fold_relax_closed)
    ultimately have "open_set (close_node c st) i" by blast
    then have "i \<noteq> c \<and> open_set st i"
      by (auto simp: close_node_def split: if_splits)
    moreover with h have "closed_set st i" by (simp add: cl)
    ultimately show ?thesis by blast
  qed
  have finA: "finite ?A" and finB: "finite ?B" by simp_all
  have A': "?A' = ?A - {c}" by (auto simp: cl)
  have B': "?B' \<subseteq> ?B - {c}" using op by blast
  show ?thesis
  proof (cases "closed_set st c")
    case True
    then have "c \<in> ?B" using c by simp
    then have "card (?B - {c}) < card ?B" using finB by (meson card_Diff1_less)
    moreover have "card ?B' \<le> card (?B - {c})" using B' finB by (meson card_mono finite_Diff)
    moreover have "?A' = ?A" using True A' by auto
    ultimately show ?thesis by (simp add: search_measure_def)
  next
    case False
    then have "c \<in> ?A" using c by simp
    then have "card (?A - {c}) < card ?A" using finA by (meson card_Diff1_less)
    moreover have "card ?B' \<le> card ?B"
      using B' finB by (meson card_mono Diff_subset subset_trans)
    ultimately show ?thesis by (simp add: search_measure_def A')
  qed
qed

text \<open>The \<^verbatim>\<open>while (true)\<close> loop of the search. It ends with a failure when no open node
  has a score below \<^verbatim>\<open>FLT_MAX\<close>, and with the arrays as they are when the goal is chosen.\<close>

function astar_loop :: "graph_t \<Rightarrow> nat \<Rightarrow> astar_t \<Rightarrow> error + astar_t" where
  "astar_loop g v_idx st =
     (case lowest_f_open (length (nodes g)) st of
        None \<Rightarrow> Inl PathNotFound
      | Some current_idx \<Rightarrow>
          if current_idx = v_idx then Inr st
          else astar_loop g v_idx (explore_neighbors g current_idx v_idx (close_node current_idx st)))"
  by pat_completeness auto
termination
  by (relation "measure search_measure") (simp_all add: search_measure_decreases)

declare astar_loop.simps [simp del]

text \<open>The walk back along \<^verbatim>\<open>prev_node_idx\<close>. The first argument is the room left in
  \<^verbatim>\<open>temp_path_nodes_idx\<close>; the indices are collected in path order (start first).\<close>

fun reconstruct :: "nat \<Rightarrow> (nat \<Rightarrow> nat option) \<Rightarrow> nat option \<Rightarrow> nat list \<Rightarrow> error + nat list" where
  "reconstruct room prev None acc = Inr acc"
| "reconstruct 0 prev (Some c) acc = Inl PathTooLong"
| "reconstruct (Suc room) prev (Some c) acc = reconstruct room prev (prev c) (c # acc)"

text \<open>Conversion of a \<^verbatim>\<open>float\<close> coordinate to the \<^verbatim>\<open>int\<close> field of a \<^verbatim>\<open>MapNode_t\<close>
  discards the fraction.\<close>

definition c_trunc :: "real \<Rightarrow> int" where
  "c_trunc r = (if 0 \<le> r then \<lfloor>r\<rfloor> else \<lceil>r\<rceil>)"

definition to_map_node :: "graph_node_t \<Rightarrow> MapNode_t" where
  "to_map_node n =
     \<lparr>mn_node_id = node_id n, mn_x = c_trunc (node_x n), mn_y = c_trunc (node_y n),
      mn_area_id = area_id n\<rparr>"

text \<open>The metrics of one segment: the first edge from \<^verbatim>\<open>prev_node_id\<close> to
  \<^verbatim>\<open>current_node_id\<close> in the edge array adds its distance and its risk factor, then
  \<^verbatim>\<open>break\<close>.\<close>

fun add_segment :: "graph_edge_t list \<Rightarrow> int \<Rightarrow> int \<Rightarrow> real \<times> real \<Rightarrow> real \<times> real" where
  "add_segment [] prev_node_id current_node_id m = m"
| "add_segment (e # es) prev_node_id current_node_id (d, r) =
     (if start_node e = prev_node_id \<and> end_node e = current_node_id
      then (d + distance e, r + risk_factor e)
      else add_segment es prev_node_id current_node_id (d, r))"

fun path_metrics :: "graph_edge_t list \<Rightarrow> int list \<Rightarrow> real \<times> real \<Rightarrow> real \<times> real" where
  "path_metrics es (a # b # ids) m = path_metrics es (b # ids) (add_segment es a b m)"
| "path_metrics es ids m = m"

definition find_safe_path :: "graph_t \<Rightarrow> int \<Rightarrow> int \<Rightarrow> error + path_t" where
  "find_safe_path g start_area_id end_area_id =
     (case resolve_areas (nodes g) start_area_id end_area_id (- 1, - 1) of
        (start_node_id, end_node_id) \<Rightarrow>
          if start_node_id = - 1 \<or> end_node_id = - 1 then Inl AreaNotFound
          else
            (case (find_node_index_by_id (nodes g) start_node_id,
                   find_node_index_by_id (nodes g) end_node_id) of
               (Some u_idx, Some v_idx) \<Rightarrow>
                 (case astar_loop g v_idx (astar_init (nodes g) u_idx v_idx) of
                    Inl e \<Rightarrow> Inl e
                  | Inr st \<Rightarrow>
                      (case reconstruct MAX_PATH_LENGTH (prev_node_idx st) (Some v_idx) [] of
                         Inl e \<Rightarrow> Inl e
                       | Inr idxs \<Rightarrow>
                           (let pn = map (\<lambda>i. to_map_node (nodes g ! i)) idxs;
                                (d, r) = path_metrics (edges g) (map mn_node_id pn) (0, 0)
                            in Inr \<lparr>path_nodes = pn, total_distance = d, total_risk = r\<rparr>)))
             | _ \<Rightarrow> Inl IndexLookupFailed))"

text \<open>The nodes that carry an area id, in array order, which is insertion order.\<close>

definition nodes_in_area :: "graph_node_t list \<Rightarrow> int \<Rightarrow> graph_node_t list" where
  "nodes_in_area ns a = filter (\<lambda>n. area_id n = a) ns"

text \<open>What the search keeps true of its arrays, for the start index \<open>u\<close>: the start has no
  predecessor; until the start is closed it is the only open node; every predecessor is a
  closed node; and every open or closed node other than the start has a predecessor.\<close>

definition search_inv :: "nat \<Rightarrow> astar_t \<Rightarrow> bool" where
  "search_inv u st \<longleftrightarrow>
     prev_node_idx st u = None \<and>
     (closed_set st u \<or> (\<forall>i. open_set st i \<longrightarrow> i = u)) \<and>
     (\<forall>i p. prev_node_idx st i = Some p \<longrightarrow> closed_set st p) \<and>
     (\<forall>i. open_set st i \<or> closed_set st i \<longrightarrow> i = u \<or> prev_node_idx st i \<noteq> None)"

text \<open>How the scores follow the predecessor links: a predecessor is a closed node, and
  the score of a node is the score of its predecessor plus the cost of an edge of the
  graph that runs from the predecessor to the node.\<close>

definition score_inv :: "graph_t \<Rightarrow> astar_t \<Rightarrow> bool" where
  "score_inv g st \<longleftrightarrow>
     (\<forall>i p. prev_node_idx st i = Some p \<longrightarrow>
        closed_set st p \<and>
        (\<exists>e \<in> set (edges g).
           start_node e = node_id (nodes g ! p) \<and> end_node e = node_id (nodes g ! i) \<and>
           g_score st i = g_score st p + edge_cost e))"

section \<open>Reachable graph stores\<close>

text \<open>The graph store is a file-level static: its only writers are the public operations
  of the module, started from the zeroed structure.\<close>

inductive reachable :: "graph_t \<Rightarrow> bool" where
  init: "reachable path_planning_init"
| node: "reachable g \<Longrightarrow> reachable (snd (add_node nid aid x y g))"
| edge: "reachable g \<Longrightarrow> reachable (snd (add_edge eid s t d g))"
| risks: "reachable g \<Longrightarrow> reachable (snd (update_edge_risks env_data g))"
| load: "reachable g \<Longrightarrow> reachable (snd (load_map_data scan_node scan_edge fl g))"
| cleanup: "reachable g \<Longrightarrow> reachable (path_planning_cleanup g)"

definition risk_in_unit :: "graph_edge_t \<Rightarrow> bool" where
  "risk_in_unit e \<longleftrightarrow> 0 \<le> risk_factor e \<and> risk_factor e \<le> 1"

section \<open>Scenario data\<close>

text \<open>The square map of the module's test fixture, built by the calls the fixture makes:
  nodes 1 to 4 at the corners of a square of side 10 with area ids 101 to 104, four
  perimeter edges of distance 10 and the diagonal from node 1 to node 3 of distance 14.14.
  \<open>square_graph r\<close> is the same map with the risk factor of the diagonal set to \<open>r\<close>;
  \<open>full_store\<close> is a store filled to both capacities.\<close>

definition square_map :: graph_t where
  "square_map =
     snd (add_edge 5 1 3 14.14 (snd (add_edge 4 4 1 10 (snd (add_edge 3 3 4 10
       (snd (add_edge 2 2 3 10 (snd (add_edge 1 1 2 10
       (snd (add_node 4 104 0 10 (snd (add_node 3 103 10 10 (snd (add_node 2 102 10 0
       (snd (add_node 1 101 0 0 path_planning_init)))))))))))))))))"

definition square_nodes :: "graph_node_t list" where
  "square_nodes =
     [\<lparr>node_id = 1, area_id = 101, node_x = 0, node_y = 0\<rparr>,
      \<lparr>node_id = 2, area_id = 102, node_x = 10, node_y = 0\<rparr>,
      \<lparr>node_id = 3, area_id = 103, node_x = 10, node_y = 10\<rparr>,
      \<lparr>node_id = 4, area_id = 104, node_x = 0, node_y = 10\<rparr>]"

definition square_edges :: "real \<Rightarrow> graph_edge_t list" where
  "square_edges r =
     [\<lparr>edge_id = 1, start_node = 1, end_node = 2, distance = 10, risk_factor = 0\<rparr>,
      \<lparr>edge_id = 2, start_node = 2, end_node = 3, distance = 10, risk_factor = 0\<rparr>,
      \<lparr>edge_id = 3, start_node = 3, end_node = 4, distance = 10, risk_factor = 0\<rparr>,
      \<lparr>edge_id = 4, start_node = 4, end_node = 1, distance = 10, risk_factor = 0\<rparr>,
      \<lparr>edge_id = 5, start_node = 1, end_node = 3, distance = 14.14, risk_factor = r\<rparr>]"

definition square_graph :: "real \<Rightarrow> graph_t" where
  "square_graph r = \<lparr>nodes = square_nodes, edges = square_edges r\<rparr>"

definition full_store :: graph_t where
  "full_store =
     \<lparr>nodes = map (\<lambda>i. \<lparr>node_id = int i, area_id = 0, node_x = 0, node_y = 0\<rparr>) [0 ..< 100],
      edges = map (\<lambda>i. \<lparr>edge_id = int i, start_node = 0, end_node = 1, distance = 1,
                         risk_factor = 0\<rparr>) [0 ..< 200]\<rparr>"

definition smoke :: EnvironmentalData_t where
  "smoke = \<lparr>tvoc_ppb = 60000, eco2_ppm = 65535, mq2_voltage = 3, mq2_concentration = 300\<rparr>"

text \<open>The scenario that raises the risk of one edge alone writes the field in the store:
  the module has no operation for it, since \<^verbatim>\<open>update_edge_risks\<close> gives every edge the
  same risk factor.\<close>

definition set_edge_risk :: "nat \<Rightarrow> real \<Rightarrow> graph_t \<Rightarrow> graph_t" where
  "set_edge_risk j r g = g\<lparr>edges := (edges g)[j := (edges g ! j)\<lparr>risk_factor := r\<rparr>]\<rparr>"

definition corner_path :: path_t where
  "corner_path =
     \<lparr>path_nodes =
        [\<lparr>mn_node_id = 1, mn_x = 0, mn_y = 0, mn_area_id = 101\<rparr>,
         \<lparr>mn_node_id = 3, mn_x = 10, mn_y = 10, mn_area_id = 103\<rparr>],
      total_distance = 14.14, total_risk = 0\<rparr>"

text \<open>Two paths with coordinates beyond \<open>2\<^sup>2\<^sup>4\<close>: one step east from 16777216, and a
  step from \<open>(-1, 0)\<close> that is 16777217 wide and 16777216 high.\<close>

definition far_east_path :: path_t where
  "far_east_path =
     \<lparr>path_nodes =
        [\<lparr>mn_node_id = 1, mn_x = 16777216, mn_y = 0, mn_area_id = 101\<rparr>,
         \<lparr>mn_node_id = 2, mn_x = 16777217, mn_y = 0, mn_area_id = 102\<rparr>],
      total_distance = 1, total_risk = 0\<rparr>"

definition far_diagonal_path :: path_t where
  "far_diagonal_path =
     \<lparr>path_nodes =
        [\<lparr>mn_node_id = 1, mn_x = - 1, mn_y = 0, mn_area_id = 101\<rparr>,
         \<lparr>mn_node_id = 2, mn_x = 16777216, mn_y = 16777216, mn_area_id = 102\<rparr>],
      total_distance = 23726567, total_risk = 0\<rparr>"

definition single_path :: path_t where
  "single_path =
     \<lparr>path_nodes = [\<lparr>mn_node_id = 1, mn_x = 0, mn_y = 0, mn_area_id = 101\<rparr>],
      total_distance = 0, total_risk = 0\<rparr>"

text \<open>The map file of the square map, as the list of its lines. \<open>square_lines\<close> gives, for
  each line of digits used below, the four fields that the two \<^verbatim>\<open>sscanf\<close> formats convert;
  the node format reads the third field as a \<^verbatim>\<open>float\<close>.\<close>

definition square_lines :: "(string \<times> int \<times> int \<times> int \<times> real) list" where
  "square_lines =
     [(''1 101 0 0'', 1, 101, 0, 0), (''2 102 10 0'', 2, 102, 10, 0),
      (''3 103 10 10'', 3, 103, 10, 10), (''4 104 0 10'', 4, 104, 0, 10),
      (''1 1 2 10.0'', 1, 1, 2, 10), (''2 2 3 10.0'', 2, 2, 3, 10),
      (''3 3 4 10.0'', 3, 3, 4, 10), (''4 4 1 10.0'', 4, 4, 1, 10),
      (''5 1 3 14.14'', 5, 1, 3, 14.14), (''1 105 5 5'', 1, 105, 5, 5),
      (''6 1 9 7.5'', 6, 1, 9, 7.5)]"

definition square_scan_edge :: edge_scanner where
  "square_scan_edge = map_of square_lines"

definition square_scan_node :: node_scanner where
  "square_scan_node l =
     map_option (\<lambda>(a, b, c, d). (a, b, real_of_int c, d)) (map_of square_lines l)"

definition square_file :: "string list" where
  "square_file =
     [''NODES'', ''1 101 0 0'', ''2 102 10 0'', ''3 103 10 10'', ''4 104 0 10'',
      ''EDGES'', ''1 1 2 10.0'', ''2 2 3 10.0'', ''3 3 4 10.0'', ''4 4 1 10.0'',
      ''5 1 3 14.14'']"

definition two_nodes :: graph_t where
  "two_nodes =
     \<lparr>nodes = [\<lparr>node_id = 1, area_id = 101, node_x = 0, node_y = 0\<rparr>,
               \<lparr>node_id = 2, area_id = 102, node_x = 10, node_y = 0\<rparr>],
      edges = []\<rparr>"

text \<open>A small mall for the replanning step: area 1 is above the hazard threshold, area 4
  is below it at 0.75, and the exits 2 and 3 are 100 and 1 away from area 1. \<open>walk ids d\<close>
  is the \<^verbatim>\<open>EvacuationPath\<close> through \<open>ids\<close>, its array padded with zeros.\<close>

definition mall :: ShoppingMallMap where
  "mall =
     \<lparr>areas =
        [\<lparr>area_ident = 1, area_name = ''Atrium'', is_exit = 0, hazard_level = 0.9\<rparr>,
         \<lparr>area_ident = 2, area_name = ''North gate'', is_exit = 1, hazard_level = 0\<rparr>,
         \<lparr>area_ident = 3, area_name = ''South gate'', is_exit = 1, hazard_level = 0\<rparr>,
         \<lparr>area_ident = 4, area_name = ''Food court'', is_exit = 0, hazard_level = 0.75\<rparr>],
      connections =
        [\<lparr>conn_from = 1, conn_to = 2, conn_distance = 100, blocked = 0\<rparr>,
         \<lparr>conn_from = 1, conn_to = 3, conn_distance = 1, blocked = 0\<rparr>,
         \<lparr>conn_from = 4, conn_to = 3, conn_distance = 5, blocked = 0\<rparr>]\<rparr>"

definition walk :: "int list \<Rightarrow> real \<Rightarrow> EvacuationPath" where
  "walk ids d =
     \<lparr>area_ids = ids @ replicate (EP_MAX_PATH_LENGTH - length ids) 0,
      path_length = int (length ids), ep_total_distance = d\<rparr>"

text \<open>The arrays of the search on the square map after the start node is expanded, with
  the score \<open>c\<close> of the diagonal, and after node 2 is expanded.\<close>

definition square_first :: "real \<Rightarrow> astar_t" where
  "square_first c =
     \<lparr>g_score = (\<lambda>i. FLT_MAX)(0 := 0, Suc 0 := 10, 2 := c),
      f_score = (\<lambda>i. FLT_MAX)(0 := sqrt 200, Suc 0 := 20, 2 := c),
      prev_node_idx = (\<lambda>i. None)(Suc 0 := Some 0, 2 := Some 0),
      open_set = (\<lambda>i. False)(0 := False, Suc 0 := True, 2 := True),
      closed_set = (\<lambda>i. False)(0 := True)\<rparr>"

definition square_second :: astar_t where
  "square_second =
     \<lparr>g_score = (\<lambda>i. FLT_MAX)(0 := 0, Suc 0 := 10, 2 := 20),
      f_score = (\<lambda>i. FLT_MAX)(0 := sqrt 200, Suc 0 := 20, 2 := 20),
      prev_node_idx = (\<lambda>i. None)(Suc 0 := Some 0, 2 := Some (Suc 0)),
      open_set = (\<lambda>i. False)(0 := False, Suc 0 := False, 2 := True),
      closed_set = (\<lambda>i. False)(0 := True, Suc 0 := True)\<rparr>"

text \<open>A map on which two nodes share the area id 101, built by the calls that insert
  them, with its node and edge arrays, the arrays of the search from area 101 to area 103
  at its end, and the path the search yields.\<close>

definition twin_nodes :: "graph_node_t list" where
  "twin_nodes =
     [\<lparr>node_id = 1, area_id = 101, node_x = 0, node_y = 0\<rparr>,
      \<lparr>node_id = 2, area_id = 101, node_x = 5, node_y = 0\<rparr>,
      \<lparr>node_id = 3, area_id = 103, node_x = 10, node_y = 0\<rparr>]"

definition twin_edges :: "graph_edge_t list" where
  "twin_edges =
     [\<lparr>edge_id = 1, start_node = 1, end_node = 3, distance = 10, risk_factor = 0\<rparr>,
      \<lparr>edge_id = 2, start_node = 2, end_node = 3, distance = 5, risk_factor = 0\<rparr>]"

definition twin_map :: graph_t where
  "twin_map =
     snd (add_edge 2 2 3 5 (snd (add_edge 1 1 3 10
       (snd (add_node 3 103 10 0 (snd (add_node 2 101 5 0
       (snd (add_node 1 101 0 0 path_planning_init)))))))))"

definition twin_final :: astar_t where
  "twin_final =
     \<lparr>g_score = (\<lambda>i. FLT_MAX)(Suc 0 := 0, 2 := 5),
      f_score = (\<lambda>i. FLT_MAX)(Suc 0 := 5, 2 := 5),
      prev_node_idx = (\<lambda>i. None)(2 := Some (Suc 0)),
      open_set = (\<lambda>i. False)(Suc 0 := False, 2 := True),
      closed_set = (\<lambda>i. False)(Suc 0 := True)\<rparr>"

definition twin_route :: path_t where
  "twin_route =
     \<lparr>path_nodes =
        [\<lparr>mn_node_id = 2, mn_x = 5, mn_y = 0, mn_area_id = 101\<rparr>,
         \<lparr>mn_node_id = 3, mn_x = 10, mn_y = 0, mn_area_id = 103\<rparr>],
      total_distance = 5, total_risk = 0\<rparr>"

text \<open>A map with two edges from node 1 to node 2, built by the calls that insert them: the
  first edge has distance 5, the second distance 1. \<open>parallel_final\<close> holds the arrays at
  the end of the search from area 1 to area 2.\<close>

definition parallel_nodes :: "graph_node_t list" where
  "parallel_nodes =
     [\<lparr>node_id = 1, area_id = 1, node_x = 0, node_y = 0\<rparr>,
      \<lparr>node_id = 2, area_id = 2, node_x = 1, node_y = 0\<rparr>]"

definition parallel_edges :: "graph_edge_t list" where
  "parallel_edges =
     [\<lparr>edge_id = 1, start_node = 1, end_node = 2, distance = 5, risk_factor = 0\<rparr>,
      \<lparr>edge_id = 2, start_node = 1, end_node = 2, distance = 1, risk_factor = 0\<rparr>]"

definition parallel_map :: graph_t where
  "parallel_map =
     snd (add_edge 2 1 2 1 (snd (add_edge 1 1 2 5
       (snd (add_node 2 2 1 0 (snd (add_node 1 1 0 0 path_planning_init)))))))"

definition parallel_final :: astar_t where
  "parallel_final =
     \<lparr>g_score = (\<lambda>i. FLT_MAX)(0 := 0, Suc 0 := 1),
      f_score = (\<lambda>i. FLT_MAX)(0 := 1, Suc 0 := 1),
      prev_node_idx = (\<lambda>i. None)(Suc 0 := Some 0),
      open_set = (\<lambda>i. False)(0 := False, Suc 0 := True),
      closed_set = (\<lambda>i. False)(0 := True)\<rparr>"

section \<open>Facts about the graph store\<close>

lemma node_id_exists_iff: "node_id_exists ns k \<longleftrightarrow> k \<in> node_id ` set ns"
  by (induction ns) auto

lemma edge_id_exists_iff: "edge_id_exists es k \<longleftrightarrow> k \<in> edge_id ` set es"
  by (induction es) auto

lemma endpoints_found_iff:
  "endpoints_found ns s t (sf, ef) =
     (sf \<or> s \<in> node_id ` set ns, ef \<or> t \<in> node_id ` set ns)"
  by (induction ns arbitrary: sf ef) auto

lemma add_node_edges: "edges (snd (add_node nid aid x y g)) = edges g"
  by (simp add: add_node_def)

lemma add_node_fail: "isl (fst (add_node nid aid x y g)) \<Longrightarrow> snd (add_node nid aid x y g) = g"
  by (simp add: add_node_def split: if_splits)

lemma add_edge_fail: "isl (fst (add_edge eid s t d g)) \<Longrightarrow> snd (add_edge eid s t d g) = g"
  by (auto simp: add_edge_def endpoints_found_iff split: if_splits)

lemma add_edge_edges:
  "edges (snd (add_edge eid s t d g)) = edges g \<or>
   edges (snd (add_edge eid s t d g)) =
     edges g @ [\<lparr>edge_id = eid, start_node = s, end_node = t, distance = d, risk_factor = 0\<rparr>]"
  by (simp add: add_edge_def endpoints_found_iff)

lemma add_edge_ok:
  "add_edge eid s t d g = (Inr u, g') \<Longrightarrow>
   g' = g\<lparr>edges := edges g @
          [\<lparr>edge_id = eid, start_node = s, end_node = t, distance = d, risk_factor = 0\<rparr>]\<rparr>"
  by (auto simp: add_edge_def endpoints_found_iff split: if_splits)

lemma update_edge_risk_unit: "risk_in_unit (update_edge_risk env e)"
  by (simp add: update_edge_risk_def risk_in_unit_def Let_def)

lemma load_edges_pres:
  assumes "\<forall>e \<in> set (edges g). P e"
    and "\<And>eid s t d. P \<lparr>edge_id = eid, start_node = s, end_node = t, distance = d, risk_factor = 0\<rparr>"
  shows "\<forall>e \<in> set (edges (snd (load_edges scan_edge ls g))). P e"
  using assms(1)
proof (induction ls arbitrary: g)
  case Nil
  then show ?case by simp
next
  case (Cons l ls)
  show ?case
  proof (cases "scan_edge l")
    case None
    with Cons show ?thesis by simp
  next
    case (Some q)
    obtain eid s t d where q: "q = (eid, s, t, d)" by (cases q)
    obtain r g' where a: "add_edge eid s t d g = (r, g')" by (cases "add_edge eid s t d g")
    have g': "\<forall>e \<in> set (edges g'). P e"
      using add_edge_edges [of eid s t d g] a Cons.prems assms(2) by auto
    show ?thesis
    proof (cases r)
      case (Inl e)
      with Some q a g' show ?thesis by simp
    next
      case (Inr u)
      with Some q a Cons.IH [OF g'] show ?thesis by simp
    qed
  qed
qed

lemma load_nodes_pres:
  assumes "\<forall>e \<in> set (edges g). P e"
    and "\<And>eid s t d. P \<lparr>edge_id = eid, start_node = s, end_node = t, distance = d, risk_factor = 0\<rparr>"
  shows "\<forall>e \<in> set (edges (snd (load_nodes scan_node scan_edge ls g))). P e"
  using assms(1)
proof (induction ls arbitrary: g)
  case Nil
  then show ?case by simp
next
  case (Cons l ls)
  show ?case
  proof (cases "take 5 l = ''EDGES''")
    case True
    then show ?thesis using load_edges_pres [of g P scan_edge ls] Cons.prems assms(2) by simp
  next
    case False
    show ?thesis
    proof (cases "scan_node l")
      case None
      with False Cons show ?thesis by simp
    next
      case (Some q)
      obtain nid aid x y where q: "q = (nid, aid, x, y)" by (cases q)
      obtain r g' where a: "add_node nid aid x y g = (r, g')" by (cases "add_node nid aid x y g")
      have g': "\<forall>e \<in> set (edges g'). P e"
        using add_node_edges [of nid aid x y g] a Cons.prems by simp
      show ?thesis
      proof (cases r)
        case (Inl e)
        with False Some q a g' show ?thesis by simp
      next
        case (Inr u)
        with False Some q a Cons.IH [OF g'] show ?thesis by simp
      qed
    qed
  qed
qed

lemma load_map_data_pres:
  assumes "\<forall>e \<in> set (edges g). P e"
    and "\<And>eid s t d. P \<lparr>edge_id = eid, start_node = s, end_node = t, distance = d, risk_factor = 0\<rparr>"
  shows "\<forall>e \<in> set (edges (snd (load_map_data scan_node scan_edge fl g))). P e"
proof (cases fl)
  case None
  with assms(1) show ?thesis by (simp add: load_map_data_def)
next
  case (Some ls)
  show ?thesis
  proof (cases ls)
    case Nil
    with Some assms(1) show ?thesis by (simp add: load_map_data_def)
  next
    case (Cons l rest)
    with Some assms(1) load_nodes_pres [of g P scan_node scan_edge rest, OF assms]
    show ?thesis by (simp add: load_map_data_def)
  qed
qed

lemma reachable_risk: "reachable g \<Longrightarrow> \<forall>e \<in> set (edges g). risk_in_unit e"
proof (induction rule: reachable.induct)
  case init
  then show ?case by (simp add: path_planning_init_def)
next
  case (node g nid aid x y)
  then show ?case by (simp add: add_node_edges)
next
  case (edge g eid s t d)
  then show ?case using add_edge_edges [of eid s t d g] by (auto simp: risk_in_unit_def)
next
  case (risks g env_data)
  then show ?case
    by (cases env_data) (simp_all add: update_edge_risks_def update_edge_risk_unit)
next
  case (load g scan_node scan_edge fl)
  then show ?case by (intro load_map_data_pres) (simp_all add: risk_in_unit_def)
next
  case (cleanup g)
  then show ?case by (simp add: path_planning_cleanup_def)
qed

lemma square_map_eq: "square_map = square_graph 0"
  by (simp add: square_map_def square_graph_def square_nodes_def square_edges_def add_node_def
      add_edge_def path_planning_init_def MAX_NODES_def MAX_EDGES_def)

lemma square_graph_sel:
  "nodes (square_graph r) = square_nodes" "edges (square_graph r) = square_edges r"
  by (simp_all add: square_graph_def)

lemma reachable_square_map: "reachable square_map"
  unfolding square_map_def by (intro reachable.node reachable.edge reachable.init)

text \<open>The node ids of a store that the operations produce are pairwise distinct.\<close>

lemma add_node_nodes:
  "nodes (snd (add_node nid aid x y g)) = nodes g \<or>
   (nid \<notin> node_id ` set (nodes g) \<and>
    nodes (snd (add_node nid aid x y g)) =
      nodes g @ [\<lparr>node_id = nid, area_id = aid, node_x = x, node_y = y\<rparr>])"
  by (simp add: add_node_def node_id_exists_iff)

lemma add_node_distinct:
  "distinct (map node_id (nodes g)) \<Longrightarrow>
   distinct (map node_id (nodes (snd (add_node nid aid x y g))))"
  using add_node_nodes [of nid aid x y g] by auto

lemma add_edge_nodes: "nodes (snd (add_edge eid s t d g)) = nodes g"
  by (simp add: add_edge_def endpoints_found_iff)

lemma load_edges_nodes: "nodes (snd (load_edges scan_edge ls g)) = nodes g"
proof (induction ls arbitrary: g)
  case Nil
  then show ?case by simp
next
  case (Cons l ls)
  show ?case
  proof (cases "scan_edge l")
    case None
    with Cons show ?thesis by simp
  next
    case (Some q)
    obtain eid s t d where q: "q = (eid, s, t, d)" by (cases q)
    obtain r g' where a: "add_edge eid s t d g = (r, g')" by (cases "add_edge eid s t d g")
    with add_edge_nodes [of eid s t d g] have "nodes g' = nodes g" by simp
    with Some q a Cons.IH [of g'] show ?thesis by (cases r) simp_all
  qed
qed

lemma load_nodes_distinct:
  "distinct (map node_id (nodes g)) \<Longrightarrow>
   distinct (map node_id (nodes (snd (load_nodes scan_node scan_edge ls g))))"
proof (induction ls arbitrary: g)
  case Nil
  then show ?case by simp
next
  case (Cons l ls)
  show ?case
  proof (cases "take 5 l = ''EDGES''")
    case True
    with Cons.prems show ?thesis by (simp add: load_edges_nodes)
  next
    case False
    show ?thesis
    proof (cases "scan_node l")
      case None
      with False Cons show ?thesis by simp
    next
      case (Some q)
      obtain nid aid x y where q: "q = (nid, aid, x, y)" by (cases q)
      obtain r g' where a: "add_node nid aid x y g = (r, g')" by (cases "add_node nid aid x y g")
      with add_node_distinct [OF Cons.prems, of nid aid x y]
      have "distinct (map node_id (nodes g'))" by simp
      with False Some q a Cons.IH [of g'] show ?thesis by (cases r) simp_all
    qed
  qed
qed

lemma load_map_data_distinct:
  "distinct (map node_id (nodes g)) \<Longrightarrow>
   distinct (map node_id (nodes (snd (load_map_data scan_node scan_edge fl g))))"
  by (auto simp: load_map_data_def load_nodes_distinct split: option.splits list.splits)

lemma reachable_distinct_ids: "reachable g \<Longrightarrow> distinct (map node_id (nodes g))"
proof (induction rule: reachable.induct)
  case init
  then show ?case by (simp add: path_planning_init_def)
next
  case (node g nid aid x y)
  then show ?case by (simp add: add_node_distinct)
next
  case (edge g eid s t d)
  then show ?case by (simp add: add_edge_nodes)
next
  case (risks g env_data)
  then show ?case by (cases env_data) (simp_all add: update_edge_risks_def)
next
  case (load g scan_node scan_edge fl)
  then show ?case by (simp add: load_map_data_distinct)
next
  case (cleanup g)
  then show ?case by (simp add: path_planning_cleanup_def)
qed

section \<open>Rejected inserts\<close>

text \<open>C7. \<^verbatim>\<open>add_node\<close> fails exactly when the node id is already present or the store holds
  \<^verbatim>\<open>MAX_NODES\<close> = 100 nodes; \<^verbatim>\<open>add_edge\<close> fails exactly when the edge id is already
  present, the store holds \<^verbatim>\<open>MAX_EDGES\<close> = 200 edges, or one of the two endpoint ids is not
  the id of a node of the store. A failed call returns the graph it was given.\<close>

theorem insert_rejected_graph_unchanged:
  "(isl (fst (add_node nid aid x y g)) \<longleftrightarrow>
      nid \<in> node_id ` set (nodes g) \<or> 100 \<le> length (nodes g)) \<and>
   (isl (fst (add_edge eid s t d g)) \<longleftrightarrow>
      eid \<in> edge_id ` set (edges g) \<or> 200 \<le> length (edges g) \<or>
      s \<notin> node_id ` set (nodes g) \<or> t \<notin> node_id ` set (nodes g)) \<and>
   (isl (fst (add_node nid aid x y g)) \<longrightarrow> snd (add_node nid aid x y g) = g) \<and>
   (isl (fst (add_edge eid s t d g)) \<longrightarrow> snd (add_edge eid s t d g) = g)"
proof -
  have "isl (fst (add_node nid aid x y g)) \<longleftrightarrow>
      nid \<in> node_id ` set (nodes g) \<or> 100 \<le> length (nodes g)"
    by (simp add: add_node_def node_id_exists_iff MAX_NODES_def)
  moreover have "isl (fst (add_edge eid s t d g)) \<longleftrightarrow>
      eid \<in> edge_id ` set (edges g) \<or> 200 \<le> length (edges g) \<or>
      s \<notin> node_id ` set (nodes g) \<or> t \<notin> node_id ` set (nodes g)"
    by (auto simp: add_edge_def edge_id_exists_iff endpoints_found_iff MAX_EDGES_def)
  ultimately show ?thesis using add_node_fail add_edge_fail by blast
qed

theorem insert_rejected_graph_unchanged_witness:
  "isl (fst (add_node 3 105 1 1 square_map)) \<and> snd (add_node 3 105 1 1 square_map) = square_map \<and>
   isl (fst (add_edge 5 1 2 7 square_map)) \<and> snd (add_edge 5 1 2 7 square_map) = square_map \<and>
   isl (fst (add_edge 6 1 9 7 square_map)) \<and> snd (add_edge 6 1 9 7 square_map) = square_map \<and>
   isl (fst (add_node 100 0 0 0 full_store)) \<and> snd (add_node 100 0 0 0 full_store) = full_store \<and>
   isl (fst (add_edge 200 0 1 1 full_store)) \<and> snd (add_edge 200 0 1 1 full_store) = full_store"
proof -
  have a: "(3::int) \<in> node_id ` set (nodes square_map)"
    and b: "(5::int) \<in> edge_id ` set (edges square_map)"
    and c: "(9::int) \<notin> node_id ` set (nodes square_map)"
    by (simp_all add: square_map_eq square_graph_sel square_nodes_def square_edges_def)
  have d: "100 \<le> length (nodes full_store)" and e: "200 \<le> length (edges full_store)"
    by (simp_all add: full_store_def)
  show ?thesis
    using a b c d e
      insert_rejected_graph_unchanged [of 3 105 1 1 square_map 5 1 2 7]
      insert_rejected_graph_unchanged [of 3 105 1 1 square_map 6 1 9 7]
      insert_rejected_graph_unchanged [of 100 0 0 0 full_store 200 0 1 1]
    by blast
qed

section \<open>Risk factors stay in the unit interval\<close>

text \<open>C5. After \<^verbatim>\<open>update_edge_risks\<close> with any reading every edge has a risk factor
  between 0 and 1, whatever the risk factors were before; \<^verbatim>\<open>add_edge\<close> keeps the bound,
  since the edge it appends has risk factor 0; hence every edge of every store that the
  operations of the module can produce has a risk factor between 0 and 1.\<close>

theorem edge_risk_stays_in_unit_interval:
  "(\<forall>e \<in> set (edges (snd (update_edge_risks (Some env) g))).
      0 \<le> risk_factor e \<and> risk_factor e \<le> 1) \<and>
   ((\<forall>e \<in> set (edges g). 0 \<le> risk_factor e \<and> risk_factor e \<le> 1) \<longrightarrow>
    (\<forall>e \<in> set (edges (snd (add_edge eid s t d g))). 0 \<le> risk_factor e \<and> risk_factor e \<le> 1)) \<and>
   (reachable g \<longrightarrow> (\<forall>e \<in> set (edges g). 0 \<le> risk_factor e \<and> risk_factor e \<le> 1))"
proof -
  have "\<forall>e \<in> set (edges (snd (update_edge_risks (Some env) g))). risk_in_unit e"
    by (simp add: update_edge_risks_def update_edge_risk_unit)
  moreover have "(\<forall>e \<in> set (edges g). risk_in_unit e) \<longrightarrow>
      (\<forall>e \<in> set (edges (snd (add_edge eid s t d g))). risk_in_unit e)"
    using add_edge_edges [of eid s t d g] by (auto simp: risk_in_unit_def)
  moreover have "reachable g \<longrightarrow> (\<forall>e \<in> set (edges g). risk_in_unit e)"
    using reachable_risk by blast
  ultimately show ?thesis unfolding risk_in_unit_def by blast
qed

theorem edge_risk_stays_in_unit_interval_witness:
  "reachable (snd (update_edge_risks (Some smoke) square_map)) \<and>
   map risk_factor (edges (snd (update_edge_risks (Some smoke) square_map))) = [1, 1, 1, 1, 1] \<and>
   0 \<le> risk_factor (edges (snd (update_edge_risks (Some smoke) square_map)) ! 4) \<and>
   risk_factor (edges (snd (update_edge_risks (Some smoke) square_map)) ! 4) \<le> 1 \<and>
   0 \<le> risk_factor
         (last (edges (snd (add_edge 6 2 4 14.14 (snd (update_edge_risks (Some smoke) square_map)))))) \<and>
   risk_factor
     (last (edges (snd (add_edge 6 2 4 14.14 (snd (update_edge_risks (Some smoke) square_map)))))) \<le> 1"
proof -
  let ?g = "snd (update_edge_risks (Some smoke) square_map)"
  let ?h = "snd (add_edge 6 2 4 14.14 ?g)"
  have r: "reachable ?g"
    by (intro reachable.risks reachable_square_map)
  have m: "map risk_factor (edges ?g) = [1, 1, 1, 1, 1]"
    by (simp add: update_edge_risks_def square_map_eq square_graph_sel square_edges_def
        update_edge_risk_def start_risk_def smoke_def)
  have n: "length (edges ?g) = 5"
    by (simp add: update_edge_risks_def square_map_eq square_graph_sel square_edges_def)
  then have i: "edges ?g ! 4 \<in> set (edges ?g)" by simp
  have "edges ?h = edges ?g \<or> (\<exists>e. edges ?h = edges ?g @ [e])"
    using add_edge_edges [of 6 2 4 "14.14" ?g] by blast
  with n have "edges ?h \<noteq> []" by auto
  then have l: "last (edges ?h) \<in> set (edges ?h)" by simp
  from edge_risk_stays_in_unit_interval [of smoke square_map 6 2 4 "14.14"]
  have a: "\<forall>e \<in> set (edges ?g). 0 \<le> risk_factor e \<and> risk_factor e \<le> 1" by blast
  with edge_risk_stays_in_unit_interval [of smoke ?g 6 2 4 "14.14"]
  have b: "\<forall>e \<in> set (edges ?h). 0 \<le> risk_factor e \<and> risk_factor e \<le> 1" by blast
  from r m a i b l show ?thesis by blast
qed

section \<open>Direction of the first segment\<close>

lemma float_ulp_small: "m < 16777216 \<Longrightarrow> float_ulp m (Suc 0) = Suc 0"
  by (subst float_ulp.simps) simp

lemma float_ulp_16777216: "float_ulp 16777216 (Suc 0) = 2"
  by (subst float_ulp.simps, simp, subst float_ulp.simps, simp)

lemma float_ulp_16777217: "float_ulp 16777217 (Suc 0) = 2"
  by (subst float_ulp.simps, simp, subst float_ulp.simps, simp)

text \<open>An integer of magnitude at most \<open>2\<^sup>2\<^sup>4\<close> is a \<^verbatim>\<open>float\<close>.\<close>

lemma round_to_float_exact:
  assumes "\<bar>n\<bar> \<le> 16777216"
  shows "round_to_float n = n"
proof (cases "\<bar>n\<bar> < 16777216")
  case True
  then have "nat \<bar>n\<bar> < 16777216" by simp
  then show ?thesis
    by (simp add: round_to_float_def float_ulp_small Let_def mult_sgn_abs)
next
  case False
  with assms have "\<bar>n\<bar> = 16777216" by simp
  then have n: "n = 16777216 \<or> n = - 16777216" by auto
  then show ?thesis
    by (auto simp: round_to_float_def float_ulp_16777216 Let_def)
qed

lemma round_to_float_values:
  "round_to_float 16777217 = 16777216" "round_to_float 16777216 = 16777216"
  "round_to_float 0 = 0" "round_to_float (- 1) = - 1"
  by (simp_all add: round_to_float_def float_ulp_16777217 float_ulp_16777216 float_ulp_small
      Let_def)

text \<open>C9, as stated, fails for large coordinates. From \<open>(16777216, 0)\<close> to
  \<open>(16777217, 0)\<close> the displacement is 1 east and 0 north, yet both ends convert to the
  same \<^verbatim>\<open>float\<close> and the code returns 1 (north). From \<open>(-1, 0)\<close> to
  \<open>(16777216, 16777216)\<close> the horizontal component 16777217 is the larger one, yet it
  rounds to 16777216 and the code returns 3 (south).\<close>

theorem large_coordinates_lose_larger_axis:
  "get_direction_from_path (Some far_east_path) = 1 \<and>
   \<bar>mn_x (path_nodes far_east_path ! 1) - mn_x (path_nodes far_east_path ! 0)\<bar>
     > \<bar>mn_y (path_nodes far_east_path ! 1) - mn_y (path_nodes far_east_path ! 0)\<bar> \<and>
   get_direction_from_path (Some far_diagonal_path) = 3 \<and>
   \<bar>mn_x (path_nodes far_diagonal_path ! 1) - mn_x (path_nodes far_diagonal_path ! 0)\<bar>
     > \<bar>mn_y (path_nodes far_diagonal_path ! 1) - mn_y (path_nodes far_diagonal_path ! 0)\<bar>"
  by (simp add: get_direction_from_path_def num_nodes_def far_east_path_def
      far_diagonal_path_def round_to_float_values)

text \<open>C9, amended. \<^verbatim>\<open>get_direction_from_path\<close> returns \<open>-1\<close> for a null path and for a
  path of fewer than two nodes. For a path of at least two nodes it returns one of the four
  codes 0 (east), 1 (north), 2 (west), 3 (south), never \<open>-1\<close>. When the coordinates of the
  first two nodes have magnitude at most \<open>2\<^sup>2\<^sup>3\<close> = 8388608, so that the conversions and the
  subtractions are exact, then with \<open>dx\<close> and \<open>dy\<close> the differences of the coordinates of
  the first two nodes the code is a horizontal one when \<open>\<bar>dx\<bar> > \<bar>dy\<bar>\<close> and a vertical one
  otherwise, so equal absolute values give a vertical code.\<close>

theorem direction_from_first_segment:
  "get_direction_from_path None = - 1 \<and>
   (length (path_nodes p) < 2 \<longrightarrow> get_direction_from_path (Some p) = - 1) \<and>
   (2 \<le> length (path_nodes p) \<longrightarrow> get_direction_from_path (Some p) \<in> {0, 1, 2, 3}) \<and>
   (2 \<le> length (path_nodes p) \<and>
    \<bar>mn_x (path_nodes p ! 0)\<bar> \<le> 8388608 \<and> \<bar>mn_y (path_nodes p ! 0)\<bar> \<le> 8388608 \<and>
    \<bar>mn_x (path_nodes p ! 1)\<bar> \<le> 8388608 \<and> \<bar>mn_y (path_nodes p ! 1)\<bar> \<le> 8388608 \<longrightarrow>
      (let dx = mn_x (path_nodes p ! 1) - mn_x (path_nodes p ! 0);
           dy = mn_y (path_nodes p ! 1) - mn_y (path_nodes p ! 0);
           r = get_direction_from_path (Some p)
       in (\<bar>dx\<bar> > \<bar>dy\<bar> \<longrightarrow> r = (if dx > 0 then 0 else 2)) \<and>
          (\<bar>dx\<bar> \<le> \<bar>dy\<bar> \<longrightarrow> r = (if dy > 0 then 3 else 1))))"
proof -
  have a: "get_direction_from_path None = - 1"
    by (simp add: get_direction_from_path_def)
  have b: "get_direction_from_path (Some p) = - 1" if "length (path_nodes p) < 2"
    using that by (simp add: get_direction_from_path_def num_nodes_def)
  have c: "get_direction_from_path (Some p) \<in> {0, 1, 2, 3}" if "2 \<le> length (path_nodes p)"
  proof -
    from that have "\<not> num_nodes p < 2" by (simp add: num_nodes_def)
    then show ?thesis by (simp add: get_direction_from_path_def Let_def)
  qed
  have d: "get_direction_from_path (Some p) =
      (let dx = mn_x (path_nodes p ! 1) - mn_x (path_nodes p ! 0);
           dy = mn_y (path_nodes p ! 1) - mn_y (path_nodes p ! 0)
       in if \<bar>dx\<bar> > \<bar>dy\<bar> then (if dx > 0 then 0 else 2) else (if dy > 0 then 3 else 1))"
    if n: "2 \<le> length (path_nodes p)"
      and x: "\<bar>mn_x (path_nodes p ! 0)\<bar> \<le> 8388608" "\<bar>mn_x (path_nodes p ! 1)\<bar> \<le> 8388608"
      and y: "\<bar>mn_y (path_nodes p ! 0)\<bar> \<le> 8388608" "\<bar>mn_y (path_nodes p ! 1)\<bar> \<le> 8388608"
  proof -
    let ?x1 = "mn_x (path_nodes p ! 0)" and ?x2 = "mn_x (path_nodes p ! 1)"
    let ?y1 = "mn_y (path_nodes p ! 0)" and ?y2 = "mn_y (path_nodes p ! 1)"
    from x y have 1: "round_to_float ?x1 = ?x1" "round_to_float ?x2 = ?x2"
      "round_to_float ?y1 = ?y1" "round_to_float ?y2 = ?y2"
      by (simp_all add: round_to_float_exact)
    from x have "\<bar>?x2 - ?x1\<bar> \<le> 16777216" by linarith
    then have 2: "round_to_float (?x2 - ?x1) = ?x2 - ?x1" by (rule round_to_float_exact)
    from y have "\<bar>?y2 - ?y1\<bar> \<le> 16777216" by linarith
    then have 3: "round_to_float (?y2 - ?y1) = ?y2 - ?y1" by (rule round_to_float_exact)
    from n have "\<not> num_nodes p < 2" by (simp add: num_nodes_def)
    then show ?thesis
      unfolding get_direction_from_path_def Let_def option.case 1 2 3
      by simp
  qed
  show ?thesis using a b c d by (auto simp: Let_def split: if_splits)
qed

theorem direction_from_first_segment_witness:
  "get_direction_from_path (Some single_path) = - 1 \<and>
   get_direction_from_path (Some corner_path) = 3 \<and>
   \<bar>mn_x (path_nodes corner_path ! 1)\<bar> \<le> 8388608 \<and>
   \<bar>mn_x (path_nodes corner_path ! 1) - mn_x (path_nodes corner_path ! 0)\<bar>
     \<le> \<bar>mn_y (path_nodes corner_path ! 1) - mn_y (path_nodes corner_path ! 0)\<bar>"
proof -
  have "length (path_nodes single_path) < 2" "2 \<le> length (path_nodes corner_path)"
    "\<bar>mn_x (path_nodes corner_path ! 0)\<bar> \<le> 8388608"
    "\<bar>mn_y (path_nodes corner_path ! 0)\<bar> \<le> 8388608"
    "\<bar>mn_x (path_nodes corner_path ! 1)\<bar> \<le> 8388608"
    "\<bar>mn_y (path_nodes corner_path ! 1)\<bar> \<le> 8388608"
    by (simp_all add: single_path_def corner_path_def)
  with direction_from_first_segment [of single_path] direction_from_first_segment [of corner_path]
  show ?thesis by (simp add: corner_path_def Let_def)
qed

section \<open>Fresh edges carry no risk\<close>

lemma square_scan_node_simps:
  "square_scan_node ''1 101 0 0'' = Some (1, 101, 0, 0)"
  "square_scan_node ''2 102 10 0'' = Some (2, 102, 10, 0)"
  "square_scan_node ''3 103 10 10'' = Some (3, 103, 10, 10)"
  "square_scan_node ''4 104 0 10'' = Some (4, 104, 0, 10)"
  "square_scan_node ''1 105 5 5'' = Some (1, 105, 5, 5)"
  by (simp_all add: square_scan_node_def square_lines_def)

lemma square_scan_edge_simps:
  "square_scan_edge ''1 1 2 10.0'' = Some (1, 1, 2, 10)"
  "square_scan_edge ''2 2 3 10.0'' = Some (2, 2, 3, 10)"
  "square_scan_edge ''3 3 4 10.0'' = Some (3, 3, 4, 10)"
  "square_scan_edge ''4 4 1 10.0'' = Some (4, 4, 1, 10)"
  "square_scan_edge ''5 1 3 14.14'' = Some (5, 1, 3, 14.14)"
  "square_scan_edge ''6 1 9 7.5'' = Some (6, 1, 9, 7.5)"
  by (simp_all add: square_scan_edge_def square_lines_def)

lemma load_square_file:
  "load_map_data square_scan_node square_scan_edge (Some square_file) path_planning_init
     = (Inr (), square_map)"
  by (simp add: load_map_data_def square_file_def square_scan_node_simps square_scan_edge_simps
      square_map_eq square_graph_def square_nodes_def square_edges_def add_node_def add_edge_def
      path_planning_init_def MAX_NODES_def MAX_EDGES_def)


lemma load_edges_zero_risk:
  "\<forall>e \<in> set (edges g). risk_factor e = 0 \<Longrightarrow>
   \<forall>e \<in> set (edges (snd (load_map_data scan_node scan_edge fl g))). risk_factor e = 0"
  by (rule load_map_data_pres) simp_all

text \<open>C10. An edge that \<^verbatim>\<open>add_edge\<close> inserts is appended with risk factor 0. Hence after
  a successful \<^verbatim>\<open>load_map_data\<close> into the initialised store every edge has risk factor 0 and
  its weighted cost \<open>distance \<times> (1 + 10 \<times> risk_factor)\<close> is its distance.\<close>

theorem new_edges_start_without_risk:
  "(\<not> isl (fst (add_edge eid s t d g)) \<longrightarrow>
      edges (snd (add_edge eid s t d g)) =
        edges g @ [\<lparr>edge_id = eid, start_node = s, end_node = t, distance = d, risk_factor = 0\<rparr>]) \<and>
   (\<not> isl (fst (load_map_data scan_node scan_edge fl path_planning_init)) \<longrightarrow>
      (\<forall>e \<in> set (edges (snd (load_map_data scan_node scan_edge fl path_planning_init))).
         risk_factor e = 0 \<and> edge_cost e = distance e))"
proof -
  have "edges (snd (add_edge eid s t d g)) =
      edges g @ [\<lparr>edge_id = eid, start_node = s, end_node = t, distance = d, risk_factor = 0\<rparr>]"
    if "\<not> isl (fst (add_edge eid s t d g))"
    using that by (auto simp: add_edge_def endpoints_found_iff split: if_splits)
  moreover have "\<forall>e \<in> set (edges (snd (load_map_data scan_node scan_edge fl path_planning_init))).
      risk_factor e = 0"
    by (rule load_edges_zero_risk) (simp add: path_planning_init_def)
  ultimately show ?thesis by (simp add: edge_cost_def risk_weight_def)
qed

theorem new_edges_start_without_risk_witness:
  "\<not> isl (fst (add_edge 6 2 4 14.14 square_map)) \<and>
   risk_factor (last (edges (snd (add_edge 6 2 4 14.14 square_map)))) = 0 \<and>
   \<not> isl (fst (load_map_data square_scan_node square_scan_edge (Some square_file)
                path_planning_init)) \<and>
   length (edges (snd (load_map_data square_scan_node square_scan_edge (Some square_file)
                path_planning_init))) = 5 \<and>
   risk_factor (edges (snd (load_map_data square_scan_node square_scan_edge (Some square_file)
                path_planning_init)) ! 4) = 0 \<and>
   edge_cost (edges (snd (load_map_data square_scan_node square_scan_edge (Some square_file)
                path_planning_init)) ! 4) = 14.14"
proof -
  let ?l = "load_map_data square_scan_node square_scan_edge (Some square_file) path_planning_init"
  have a: "\<not> isl (fst (add_edge 6 2 4 14.14 square_map))"
    by (simp add: add_edge_def square_map_eq square_graph_sel square_nodes_def square_edges_def
        MAX_EDGES_def)
  have b: "\<not> isl (fst ?l)" by (simp add: load_square_file)
  have c: "length (edges (snd ?l)) = 5"
    by (simp add: load_square_file square_map_eq square_graph_sel square_edges_def)
  then have d: "edges (snd ?l) ! 4 \<in> set (edges (snd ?l))" by simp
  have e: "distance (edges (snd ?l) ! 4) = 14.14"
    by (simp add: load_square_file square_map_eq square_graph_sel square_edges_def)
  from a new_edges_start_without_risk [of 6 2 4 "14.14" square_map]
  have f: "risk_factor (last (edges (snd (add_edge 6 2 4 14.14 square_map)))) = 0" by simp
  from b d new_edges_start_without_risk
    [of 6 2 4 "14.14" square_map square_scan_node square_scan_edge "Some square_file"]
  have "risk_factor (edges (snd ?l) ! 4) = 0 \<and>
      edge_cost (edges (snd ?l) ! 4) = distance (edges (snd ?l) ! 4)"
    by blast
  with a b c e f show ?thesis by simp
qed

section \<open>Replanning\<close>

lemma replicate_50: "replicate 50 x = x # x # replicate 48 x"
proof -
  have "(50::nat) = Suc (Suc 48)" by simp
  then show ?thesis by (simp only: replicate_Suc)
qed

lemma area_is_hazardous_iff:
  "area_is_hazardous ars aid \<longleftrightarrow> (\<exists>a \<in> set ars. area_ident a = aid \<and> hazard_level a > 0.8)"
  by (induction ars) auto

lemma path_is_hazardous_iff:
  "path_is_hazardous ars aids \<longleftrightarrow> (\<exists>aid \<in> set aids. area_is_hazardous ars aid)"
  by (induction aids) auto

text \<open>C4. If no area id among the first \<^verbatim>\<open>length\<close> entries of the path belongs to an area of
  the map whose hazard level is above 0.8, \<^verbatim>\<open>update_path_dynamically\<close> returns the path it was
  given: the same array of area ids, the same length and the same total distance.\<close>

theorem safe_path_returned_unchanged:
  assumes "\<forall>i < nat (path_length path). \<forall>a \<in> set (areas m).
             area_ident a = area_ids path ! i \<longrightarrow> \<not> hazard_level a > 0.8"
  shows "update_path_dynamically m path current_area = path"
proof -
  have "\<not> path_is_hazardous (areas m) (take (nat (path_length path)) (area_ids path))"
  proof
    assume "path_is_hazardous (areas m) (take (nat (path_length path)) (area_ids path))"
    then obtain aid a where
      aid: "aid \<in> set (take (nat (path_length path)) (area_ids path))"
      and a: "a \<in> set (areas m)" "area_ident a = aid" "hazard_level a > 0.8"
      by (auto simp: path_is_hazardous_iff area_is_hazardous_iff)
    from aid obtain i where
      i: "i < length (take (nat (path_length path)) (area_ids path))"
      "take (nat (path_length path)) (area_ids path) ! i = aid"
      by (auto simp: in_set_conv_nth)
    then have "i < nat (path_length path)" "area_ids path ! i = aid" by simp_all
    with assms a show False by auto
  qed
  then show ?thesis by (simp add: update_path_dynamically_def)
qed

theorem safe_path_returned_unchanged_witness:
  "update_path_dynamically mall (walk [4, 3] 5) 4 = walk [4, 3] 5 \<and>
   area_ids (update_path_dynamically mall (walk [4, 3] 5) 4) ! 0 = 4 \<and>
   path_length (update_path_dynamically mall (walk [4, 3] 5) 4) = 2 \<and>
   ep_total_distance (update_path_dynamically mall (walk [4, 3] 5) 4) = 5"
proof -
  have "\<forall>i < nat (path_length (walk [4, 3] 5)). \<forall>a \<in> set (areas mall).
          area_ident a = area_ids (walk [4, 3] 5) ! i \<longrightarrow> \<not> hazard_level a > 0.8"
    by (simp add: walk_def mall_def less_Suc_eq numeral_2_eq_2)
  from safe_path_returned_unchanged [OF this, of 4]
  show ?thesis by (simp add: walk_def)
qed

text \<open>What the replanning step returns when the path is found hazardous: the two-area path
  from the current area to the first area of the array that is marked as an exit, or to
  \<open>-1\<close> when no area is.\<close>

lemma replanning_result:
  "path_is_hazardous (areas m) (take (nat (path_length path)) (area_ids path)) \<Longrightarrow>
   update_path_dynamically m path current_area =
     find_evacuation_path m current_area (first_exit (areas m))"
  by (simp add: update_path_dynamically_def find_nearest_exit_def)

lemma first_exit_is_first:
  "first_exit ars = (case filter (\<lambda>a. is_exit a \<noteq> 0) ars of [] \<Rightarrow> - 1 | a # rest \<Rightarrow> area_ident a)"
  by (induction ars) simp_all

text \<open>C3. The replanning step on the mall above, for an occupant in area 1 whose path
  holds the hazardous area 1: \<^verbatim>\<open>find_nearest_exit\<close> does not look at the current area and
  returns the first exit of the area array, area 2, so the new path leads to area 2 at
  distance 100, although area 3 is an exit at distance 1 from area 1.\<close>

theorem replanning_takes_first_exit:
  "update_path_dynamically mall (walk [1] 0) 1 = walk [1, 2] 100 \<and>
   find_nearest_exit mall 1 = 2 \<and>
   is_exit (areas mall ! 2) = 1 \<and> area_ident (areas mall ! 2) = 3 \<and>
   find_evacuation_path mall 1 3 = walk [1, 3] 1"
  by (simp add: update_path_dynamically_def find_nearest_exit_def find_evacuation_path_def
      walk_def mall_def EP_MAX_PATH_LENGTH_def Let_def replicate_50)

section \<open>Failed map loads\<close>

lemma load_edges_append:
  "load_edges scan_edge pre g = (Inr u, g1) \<Longrightarrow>
   load_edges scan_edge (pre @ suf) g = load_edges scan_edge suf g1"
proof (induction pre arbitrary: g)
  case Nil
  then show ?case by simp
next
  case (Cons l pre)
  show ?case
  proof (cases "scan_edge l")
    case None
    with Cons show ?thesis by simp
  next
    case (Some q)
    obtain eid s t d where q: "q = (eid, s, t, d)" by (cases q)
    obtain r g' where a: "add_edge eid s t d g = (r, g')" by (cases "add_edge eid s t d g")
    show ?thesis
    proof (cases r)
      case (Inl e)
      with Some q a Cons.prems show ?thesis by simp
    next
      case (Inr v)
      with Some q a Cons.prems have "load_edges scan_edge pre g' = (Inr u, g1)" by simp
      from Cons.IH [OF this] Some q a Inr show ?thesis by simp
    qed
  qed
qed

lemma load_nodes_append:
  "load_nodes scan_node scan_edge pre g = (Inr u, g1) \<Longrightarrow>
   load_nodes scan_node scan_edge (pre @ suf) g =
     (if edges_header_seen pre then load_edges scan_edge suf g1
      else load_nodes scan_node scan_edge suf g1)"
proof (induction pre arbitrary: g)
  case Nil
  then show ?case by (simp add: edges_header_seen_def)
next
  case (Cons l pre)
  show ?case
  proof (cases "take 5 l = ''EDGES''")
    case True
    with Cons.prems have "load_edges scan_edge pre g = (Inr u, g1)" by simp
    from load_edges_append [OF this] True show ?thesis by (simp add: edges_header_seen_def)
  next
    case False
    show ?thesis
    proof (cases "scan_node l")
      case None
      with False Cons show ?thesis by (simp add: edges_header_seen_def)
    next
      case (Some q)
      obtain nid aid x y where q: "q = (nid, aid, x, y)" by (cases q)
      obtain r g' where a: "add_node nid aid x y g = (r, g')" by (cases "add_node nid aid x y g")
      show ?thesis
      proof (cases r)
        case (Inl e)
        with False Some q a Cons.prems show ?thesis by simp
      next
        case (Inr v)
        with False Some q a Cons.prems
        have "load_nodes scan_node scan_edge pre g' = (Inr u, g1)" by simp
        from Cons.IH [OF this] False Some q a Inr show ?thesis
          by (simp add: edges_header_seen_def)
      qed
    qed
  qed
qed

lemma load_map_data_append:
  assumes "load_map_data scan_node scan_edge (Some pre) g = (Inr u, g1)"
  shows "pre \<noteq> [] \<and>
         load_map_data scan_node scan_edge (Some (pre @ suf)) g =
           (if edges_header_seen (tl pre) then load_edges scan_edge suf g1
            else load_nodes scan_node scan_edge suf g1)"
proof (cases pre)
  case Nil
  with assms show ?thesis by (simp add: load_map_data_def)
next
  case (Cons l ls)
  with assms have h: "take 5 l = ''NODES''"
    by (simp add: load_map_data_def split: if_splits)
  with assms Cons have "load_nodes scan_node scan_edge ls g = (Inr u, g1)"
    by (simp add: load_map_data_def)
  from load_nodes_append [OF this, of suf] h Cons show ?thesis
    by (simp add: load_map_data_def)
qed

lemma load_two_nodes:
  "load_map_data square_scan_node square_scan_edge (Some [''NODES'', ''1 101 0 0'', ''2 102 10 0''])
     path_planning_init = (Inr (), two_nodes)"
  by (simp add: load_map_data_def square_scan_node_simps two_nodes_def add_node_def
      path_planning_init_def MAX_NODES_def)

text \<open>C8, as stated, fails: a map file whose third node line repeats the id 1 makes
  \<^verbatim>\<open>load_map_data\<close> fail, and the store then holds the two nodes read before that line.\<close>

theorem failed_load_retains_partial_graph:
  "load_map_data square_scan_node square_scan_edge
     (Some [''NODES'', ''1 101 0 0'', ''2 102 10 0'', ''1 105 5 5'', ''3 103 10 10''])
     path_planning_init = (Inl NodeInsertFailed, two_nodes) \<and>
   nodes two_nodes \<noteq> nodes path_planning_init"
  by (simp add: load_map_data_def square_scan_node_simps two_nodes_def add_node_def
      path_planning_init_def MAX_NODES_def)

text \<open>C8, amended. \<^verbatim>\<open>load_map_data\<close> fails and leaves the store as it was when the file
  cannot be opened or its first line does not start with \<^verbatim>\<open>NODES\<close>. When the insert of a node
  line or of an edge line fails, \<^verbatim>\<open>load_map_data\<close> fails and the store is the one that loading
  only the lines before the failing line produces: every earlier insert is kept.\<close>

theorem failed_load_keeps_earlier_inserts:
  "load_map_data scan_node scan_edge None g = (Inl CannotOpenFile, g) \<and>
   (ls = [] \<or> take 5 (hd ls) \<noteq> ''NODES'' \<longrightarrow>
      load_map_data scan_node scan_edge (Some ls) g = (Inl MissingNodesHeader, g)) \<and>
   (load_map_data scan_node scan_edge (Some pre) g = (Inr (), g1) \<and>
    \<not> edges_header_seen (tl pre) \<and> take 5 bad \<noteq> ''EDGES'' \<and>
    scan_node bad = Some (nid, aid, x, y) \<and> isl (fst (add_node nid aid x y g1)) \<longrightarrow>
      load_map_data scan_node scan_edge (Some (pre @ bad # rest)) g = (Inl NodeInsertFailed, g1)) \<and>
   (load_map_data scan_node scan_edge (Some pre) g = (Inr (), g1) \<and>
    edges_header_seen (tl pre) \<and>
    scan_edge bad = Some (eid, s, t, d) \<and> isl (fst (add_edge eid s t d g1)) \<longrightarrow>
      load_map_data scan_node scan_edge (Some (pre @ bad # rest)) g = (Inl EdgeInsertFailed, g1))"
proof -
  have a: "load_map_data scan_node scan_edge None g = (Inl CannotOpenFile, g)"
    by (simp add: load_map_data_def)
  have b: "load_map_data scan_node scan_edge (Some ls) g = (Inl MissingNodesHeader, g)"
    if "ls = [] \<or> take 5 (hd ls) \<noteq> ''NODES''"
    using that by (cases ls) (auto simp: load_map_data_def)
  have c: "load_map_data scan_node scan_edge (Some (pre @ bad # rest)) g
             = (Inl NodeInsertFailed, g1)"
    if l: "load_map_data scan_node scan_edge (Some pre) g = (Inr (), g1)"
      and n: "\<not> edges_header_seen (tl pre)" "take 5 bad \<noteq> ''EDGES''"
      and f: "scan_node bad = Some (nid, aid, x, y)" "isl (fst (add_node nid aid x y g1))"
  proof -
    obtain r g' where r: "add_node nid aid x y g1 = (r, g')"
      by (cases "add_node nid aid x y g1")
    with f(2) add_node_fail [of nid aid x y g1] obtain e where "r = Inl e" "g' = g1"
      by (cases r) auto
    with load_map_data_append [OF l, of "bad # rest"] n f(1) r show ?thesis by simp
  qed
  have d: "load_map_data scan_node scan_edge (Some (pre @ bad # rest)) g
             = (Inl EdgeInsertFailed, g1)"
    if l: "load_map_data scan_node scan_edge (Some pre) g = (Inr (), g1)"
      and n: "edges_header_seen (tl pre)"
      and f: "scan_edge bad = Some (eid, s, t, d)" "isl (fst (add_edge eid s t d g1))"
  proof -
    obtain r g' where r: "add_edge eid s t d g1 = (r, g')"
      by (cases "add_edge eid s t d g1")
    with f(2) add_edge_fail [of eid s t d g1] obtain e where "r = Inl e" "g' = g1"
      by (cases r) auto
    with load_map_data_append [OF l, of "bad # rest"] n f(1) r show ?thesis by simp
  qed
  from a b c d show ?thesis by blast
qed

theorem failed_load_keeps_earlier_inserts_witness:
  "load_map_data square_scan_node square_scan_edge
     (Some ([''NODES'', ''1 101 0 0'', ''2 102 10 0''] @ ''1 105 5 5'' # [''3 103 10 10'']))
     path_planning_init = (Inl NodeInsertFailed, two_nodes) \<and>
   load_map_data square_scan_node square_scan_edge
     (Some (square_file @ ''6 1 9 7.5'' # [])) path_planning_init
     = (Inl EdgeInsertFailed, square_map) \<and>
   load_map_data square_scan_node square_scan_edge (Some [''EDGES'', ''1 1 2 10.0''])
     path_planning_init = (Inl MissingNodesHeader, path_planning_init) \<and>
   load_map_data square_scan_node square_scan_edge None square_map
     = (Inl CannotOpenFile, square_map)"
proof -
  have a: "\<not> edges_header_seen (tl [''NODES'', ''1 101 0 0'', ''2 102 10 0''])"
    "take 5 ''1 105 5 5'' \<noteq> ''EDGES''"
    "isl (fst (add_node 1 105 5 5 two_nodes))"
    by (simp_all add: edges_header_seen_def add_node_def two_nodes_def)
  have b: "edges_header_seen (tl square_file)" "isl (fst (add_edge 6 1 9 7.5 square_map))"
    by (simp_all add: edges_header_seen_def square_file_def add_edge_def square_map_eq
        square_graph_sel square_nodes_def square_edges_def MAX_EDGES_def)
  have c: "[''EDGES'', ''1 1 2 10.0''] = [] \<or> take 5 (hd [''EDGES'', ''1 1 2 10.0'']) \<noteq> ''NODES''"
    by simp
  from failed_load_keeps_earlier_inserts
    [of square_scan_node square_scan_edge path_planning_init "[''EDGES'', ''1 1 2 10.0'']"
      "[''NODES'', ''1 101 0 0'', ''2 102 10 0'']" two_nodes "''1 105 5 5''" 1 105 5 5
      "[''3 103 10 10'']"]
    load_two_nodes a c square_scan_node_simps(5)
  have 1: "load_map_data square_scan_node square_scan_edge
     (Some ([''NODES'', ''1 101 0 0'', ''2 102 10 0''] @ ''1 105 5 5'' # [''3 103 10 10'']))
     path_planning_init = (Inl NodeInsertFailed, two_nodes)"
    and 3: "load_map_data square_scan_node square_scan_edge (Some [''EDGES'', ''1 1 2 10.0''])
     path_planning_init = (Inl MissingNodesHeader, path_planning_init)"
    by blast+
  from failed_load_keeps_earlier_inserts
    [of square_scan_node square_scan_edge path_planning_init "[]" square_file square_map
      "''6 1 9 7.5''" 0 0 0 0 "[]" 6 1 9 "7.5"]
    load_square_file b square_scan_edge_simps(6)
  have 2: "load_map_data square_scan_node square_scan_edge
     (Some (square_file @ ''6 1 9 7.5'' # [])) path_planning_init
     = (Inl EdgeInsertFailed, square_map)"
    by blast
  from failed_load_keeps_earlier_inserts [of square_scan_node square_scan_edge square_map]
  have 4: "load_map_data square_scan_node square_scan_edge None square_map
     = (Inl CannotOpenFile, square_map)"
    by blast
  from 1 2 3 4 show ?thesis by blast
qed

section \<open>The search keeps its invariant\<close>

lemma search_inv_init: "search_inv u (astar_init ns u v)"
  by (simp add: search_inv_def astar_init_def)

lemma search_inv_close:
  assumes "search_inv u st" "open_set st c"
  shows "search_inv u (close_node c st)" "closed_set (close_node c st) u"
    "closed_set (close_node c st) c"
  using assms by (auto simp: search_inv_def close_node_def)

lemma search_inv_relax:
  assumes "search_inv u st" "closed_set st u" "closed_set st c"
  shows "search_inv u (relax_edge ns c v e st)"
  using assms
  by (auto simp: search_inv_def relax_edge_def Let_def split: option.splits)

lemma search_inv_fold_relax:
  assumes "search_inv u st" "closed_set st u" "closed_set st c"
  shows "search_inv u (fold (relax_edge ns c v) es st)"
  using assms
proof (induction es arbitrary: st)
  case Nil
  then show ?case by simp
next
  case (Cons e es)
  have "search_inv u (relax_edge ns c v e st)"
    using Cons.prems by (rule search_inv_relax)
  moreover have "closed_set (relax_edge ns c v e st) u" "closed_set (relax_edge ns c v e st) c"
    using Cons.prems by (simp_all add: relax_edge_closed)
  ultimately show ?case using Cons.IH by simp
qed

lemma search_inv_step:
  assumes "search_inv u st" "open_set st c"
  shows "search_inv u (explore_neighbors g c v (close_node c st))"
  unfolding explore_neighbors_def
  using search_inv_close [OF assms] by (rule search_inv_fold_relax)

lemma astar_loop_inv:
  "search_inv u st \<Longrightarrow> astar_loop g v st = Inr st' \<Longrightarrow> search_inv u st' \<and> open_set st' v"
proof (induction g v st rule: astar_loop.induct)
  case (1 g v st)
  show ?case
  proof (cases "lowest_f_open (length (nodes g)) st")
    case None
    with "1.prems"(2) show ?thesis by (simp add: astar_loop.simps)
  next
    case (Some c)
    then have c: "open_set st c" using lowest_f_open_Some by blast
    show ?thesis
    proof (cases "c = v")
      case True
      with Some "1.prems" c show ?thesis by (simp add: astar_loop.simps)
    next
      case False
      with Some "1.prems"(2)
      have "astar_loop g v (explore_neighbors g c v (close_node c st)) = Inr st'"
        by (simp add: astar_loop.simps)
      moreover have "search_inv u (explore_neighbors g c v (close_node c st))"
        using "1.prems"(1) c by (rule search_inv_step)
      ultimately show ?thesis using "1.IH" [OF Some False] by blast
    qed
  qed
qed

lemma reconstruct_ends:
  assumes "search_inv u st"
  shows "open_set st c \<or> closed_set st c \<Longrightarrow>
         reconstruct room (prev_node_idx st) (Some c) acc = Inr idxs \<Longrightarrow>
         \<exists>mid. idxs = u # mid \<and> (\<exists>pre. idxs = pre @ c # acc)"
proof (induction room arbitrary: c acc)
  case 0
  then show ?case by simp
next
  case (Suc room)
  show ?case
  proof (cases "prev_node_idx st c")
    case None
    with Suc.prems have "idxs = c # acc" by simp
    moreover from None Suc.prems(1) assms have "c = u" by (auto simp: search_inv_def)
    ultimately show ?thesis by simp
  next
    case (Some p)
    with assms have "closed_set st p" by (auto simp: search_inv_def)
    moreover from Some Suc.prems
    have "reconstruct room (prev_node_idx st) (Some p) (c # acc) = Inr idxs" by simp
    ultimately obtain mid pre where "idxs = u # mid" "idxs = pre @ p # c # acc"
      using Suc.IH [of p "c # acc"] by blast
    then have "idxs = u # mid \<and> idxs = (pre @ [p]) @ c # acc" by simp
    then show ?thesis by blast
  qed
qed

lemma resolve_areas_last:
  "resolve_areas ns s e (a, b) =
     (if nodes_in_area ns s = [] then a else node_id (last (nodes_in_area ns s)),
      if nodes_in_area ns e = [] then b else node_id (last (nodes_in_area ns e)))"
  by (induction ns arbitrary: a b) (simp_all add: nodes_in_area_def)

lemma find_node_index_Some:
  "find_node_index_by_id ns k = Some i \<Longrightarrow> i < length ns \<and> node_id (ns ! i) = k"
proof (induction ns arbitrary: i)
  case Nil
  then show ?case by simp
next
  case (Cons n ns)
  show ?case
  proof (cases "node_id n = k")
    case True
    with Cons.prems show ?thesis by simp
  next
    case False
    with Cons.prems obtain j where "find_node_index_by_id ns k = Some j" "i = Suc j"
      by auto
    with Cons.IH show ?thesis by simp
  qed
qed

lemma distinct_node_id_nth:
  assumes "distinct (map node_id ns)" "n \<in> set ns" "i < length ns" "node_id (ns ! i) = node_id n"
  shows "ns ! i = n"
proof -
  from assms(1) have "inj_on node_id (set ns)" by (simp add: distinct_map)
  moreover from assms(3) have "ns ! i \<in> set ns" by simp
  ultimately show ?thesis using assms(2,4) by (auto dest: inj_onD)
qed

lemma last_nodes_in_area_mem:
  "nodes_in_area ns a \<noteq> [] \<Longrightarrow> last (nodes_in_area ns a) \<in> set ns"
  using last_in_set [of "nodes_in_area ns a"] by (auto simp: nodes_in_area_def)

lemma score_inv_init: "score_inv g (astar_init ns u v)"
  by (simp add: score_inv_def astar_init_def)

lemma score_inv_close: "score_inv g st \<Longrightarrow> score_inv g (close_node c st)"
  by (simp add: score_inv_def close_node_def)

lemma score_inv_relax:
  assumes inv: "score_inv g st" and c: "closed_set st c" and e: "e \<in> set (edges g)"
  shows "score_inv g (relax_edge (nodes g) c v e st)"
proof (cases "start_node e = node_id (nodes g ! c)")
  case False
  with inv show ?thesis by (simp add: relax_edge_def)
next
  case s: True
  show ?thesis
  proof (cases "find_node_index_by_id (nodes g) (end_node e)")
    case None
    with inv show ?thesis by (simp add: relax_edge_def)
  next
    case (Some nb)
    then have t: "end_node e = node_id (nodes g ! nb)"
      using find_node_index_Some by fastforce
    let ?t = "g_score st c + edge_cost e"
    show ?thesis
    proof (cases "\<not> closed_set st nb \<and> (\<not> open_set st nb \<or> ?t < g_score st nb)")
      case False
      with inv Some show ?thesis by (auto simp: relax_edge_def Let_def)
    next
      case True
      then have nb: "\<not> closed_set st nb" by simp
      let ?st' = "st\<lparr>prev_node_idx := (prev_node_idx st)(nb := Some c),
                     g_score := (g_score st)(nb := ?t),
                     f_score := (f_score st)(nb := ?t + heuristic (nodes g) nb v),
                     open_set := (open_set st)(nb := True)\<rparr>"
      from True Some s have r: "relax_edge (nodes g) c v e st = ?st'"
        by (simp add: relax_edge_def Let_def)
      have "score_inv g ?st'"
        unfolding score_inv_def
      proof (intro allI impI)
        fix i p
        assume h: "prev_node_idx ?st' i = Some p"
        show "closed_set ?st' p \<and>
              (\<exists>e \<in> set (edges g).
                 start_node e = node_id (nodes g ! p) \<and> end_node e = node_id (nodes g ! i) \<and>
                 g_score ?st' i = g_score ?st' p + edge_cost e)"
        proof (cases "i = nb")
          case True
          with h have p: "p = c" by simp
          with c nb have "c \<noteq> nb" by auto
          with True p c e s t show ?thesis by auto
        next
          case False
          with h have h': "prev_node_idx st i = Some p" by simp
          with inv have cp: "closed_set st p" and
            ex: "\<exists>e \<in> set (edges g).
                 start_node e = node_id (nodes g ! p) \<and> end_node e = node_id (nodes g ! i) \<and>
                 g_score st i = g_score st p + edge_cost e"
            by (auto simp: score_inv_def)
          from cp nb have "p \<noteq> nb" by auto
          with False cp ex show ?thesis by simp
        qed
      qed
      with r show ?thesis by simp
    qed
  qed
qed

lemma score_inv_fold_relax:
  assumes "score_inv g st" "closed_set st c" "set es \<subseteq> set (edges g)"
  shows "score_inv g (fold (relax_edge (nodes g) c v) es st)"
  using assms
proof (induction es arbitrary: st)
  case Nil
  then show ?case by simp
next
  case (Cons e es)
  from Cons.prems have "score_inv g (relax_edge (nodes g) c v e st)"
    by (intro score_inv_relax) simp_all
  moreover from Cons.prems have "closed_set (relax_edge (nodes g) c v e st) c"
    by (simp add: relax_edge_closed)
  ultimately show ?case using Cons.IH Cons.prems(3) by simp
qed

lemma score_inv_step: "score_inv g st \<Longrightarrow> score_inv g (explore_neighbors g c v (close_node c st))"
  unfolding explore_neighbors_def
  by (intro score_inv_fold_relax score_inv_close) (simp_all add: close_node_def)

lemma astar_loop_score:
  "score_inv g st \<Longrightarrow> astar_loop g v st = Inr st' \<Longrightarrow> score_inv g st'"
proof (induction g v st rule: astar_loop.induct)
  case (1 g v st)
  show ?case
  proof (cases "lowest_f_open (length (nodes g)) st")
    case None
    with "1.prems"(2) show ?thesis by (simp add: astar_loop.simps)
  next
    case (Some c)
    show ?thesis
    proof (cases "c = v")
      case True
      with Some "1.prems" show ?thesis by (simp add: astar_loop.simps)
    next
      case False
      with Some "1.prems"(2)
      have "astar_loop g v (explore_neighbors g c v (close_node c st)) = Inr st'"
        by (simp add: astar_loop.simps)
      moreover have "score_inv g (explore_neighbors g c v (close_node c st))"
        using "1.prems"(1) by (rule score_inv_step)
      ultimately show ?thesis using "1.IH" [OF Some False] by blast
    qed
  qed
qed

section \<open>The planner on the scenario maps\<close>

lemma reconstruct_pos:
  "0 < room \<Longrightarrow>
   reconstruct room prev (Some c) acc = reconstruct (room - 1) prev (prev c) (c # acc)"
  by (cases room) simp_all

lemmas search_eval =
  relax_edge_def close_node_def astar_init_def edge_cost_def risk_weight_def
  explore_neighbors_def Let_def lowest_f_open_def lowest_f_step_def FLT_MAX_def

lemma sqrt_200_less: "sqrt 200 < 340282346638528859811704183484516925440"
proof -
  have "sqrt 200 < 15" by (rule real_less_lsqrt) simp_all
  then show ?thesis by simp
qed

lemma square_heuristic:
  "heuristic square_nodes 0 2 = sqrt 200" "heuristic square_nodes (Suc 0) 2 = 10"
  "heuristic square_nodes 2 2 = 0"
  by (simp_all add: heuristic_def square_nodes_def)

lemma square_index:
  "find_node_index_by_id square_nodes 1 = Some 0"
  "find_node_index_by_id square_nodes 2 = Some (Suc 0)"
  "find_node_index_by_id square_nodes 3 = Some 2"
  "find_node_index_by_id square_nodes 4 = Some 3"
  by (simp_all add: square_nodes_def)

lemma square_node_id:
  "node_id (square_nodes ! 0) = 1" "node_id (square_nodes ! Suc 0) = 2"
  "node_id (square_nodes ! 2) = 3" "node_id (square_nodes ! 3) = 4"
  by (simp_all add: square_nodes_def)

lemma square_resolve: "resolve_areas square_nodes 101 103 (- 1, - 1) = (1, 3)"
  by (simp add: square_nodes_def)

lemma square_length: "length square_nodes = 4"
  by (simp add: square_nodes_def)

lemma upt_4: "[0 ..< 4] = [0, Suc 0, 2, 3]"
  by (simp add: upt_rec)

lemmas square_eval =
  relax_edge_def close_node_def astar_init_def edge_cost_def risk_weight_def
  explore_neighbors_def Let_def lowest_f_open_def lowest_f_step_def upt_4 square_heuristic
  square_index square_node_id sqrt_200_less FLT_MAX_def square_length square_graph_sel
  square_edges_def

lemma square_pick_start:
  "lowest_f_open (length (nodes (square_graph r))) (astar_init square_nodes 0 2) = Some 0"
  by (simp add: square_eval)

lemma square_explore_start_0:
  "explore_neighbors (square_graph 0) 0 2 (close_node 0 (astar_init square_nodes 0 2))
     = square_first (707 / 50)"
  by (simp add: square_eval square_first_def)

lemma square_explore_start_1:
  "explore_neighbors (square_graph 1) 0 2 (close_node 0 (astar_init square_nodes 0 2))
     = square_first (7777 / 50)"
  by (simp add: square_eval square_first_def)

lemma square_pick_0: "lowest_f_open (length (nodes (square_graph 0))) (square_first (707 / 50)) = Some 2"
  by (simp add: square_eval square_first_def)

lemma square_pick_1:
  "lowest_f_open (length (nodes (square_graph 1))) (square_first (7777 / 50)) = Some (Suc 0)"
  by (simp add: square_eval square_first_def)

lemma square_explore_second:
  "explore_neighbors (square_graph 1) (Suc 0) 2 (close_node (Suc 0) (square_first (7777 / 50)))
     = square_second"
  by (simp add: square_eval square_first_def square_second_def fun_upd_twist)

lemma square_pick_2: "lowest_f_open (length (nodes (square_graph 1))) square_second = Some 2"
  by (simp add: square_eval square_second_def)

lemma square_search_0:
  "astar_loop (square_graph 0) 2 (astar_init square_nodes 0 2) = Inr (square_first (707 / 50))"
  apply (subst astar_loop.simps)
  apply (simp add: square_pick_start square_explore_start_0)
  apply (subst astar_loop.simps)
  apply (simp add: square_pick_0)
  done

lemma square_search_1:
  "astar_loop (square_graph 1) 2 (astar_init square_nodes 0 2) = Inr square_second"
  apply (subst astar_loop.simps)
  apply (simp add: square_pick_start square_explore_start_1)
  apply (subst astar_loop.simps)
  apply (simp add: square_pick_1 square_explore_second)
  apply (subst astar_loop.simps)
  apply (simp add: square_pick_2)
  done

lemma square_walk_0:
  "reconstruct MAX_PATH_LENGTH (prev_node_idx (square_first c)) (Some 2) [] = Inr [0, 2]"
  by (simp add: MAX_PATH_LENGTH_def MAP_WIDTH_def MAP_HEIGHT_def square_first_def reconstruct_pos)

lemma square_walk_1:
  "reconstruct MAX_PATH_LENGTH (prev_node_idx square_second) (Some 2) [] = Inr [0, Suc 0, 2]"
  by (simp add: MAX_PATH_LENGTH_def MAP_WIDTH_def MAP_HEIGHT_def square_second_def reconstruct_pos)

lemma square_map_nodes:
  "to_map_node (square_nodes ! 0) = \<lparr>mn_node_id = 1, mn_x = 0, mn_y = 0, mn_area_id = 101\<rparr>"
  "to_map_node (square_nodes ! Suc 0) = \<lparr>mn_node_id = 2, mn_x = 10, mn_y = 0, mn_area_id = 102\<rparr>"
  "to_map_node (square_nodes ! 2) = \<lparr>mn_node_id = 3, mn_x = 10, mn_y = 10, mn_area_id = 103\<rparr>"
  by (simp_all add: square_nodes_def to_map_node_def c_trunc_def)

lemma square_path_0:
  "find_safe_path (square_graph 0) 101 103 =
     Inr \<lparr>path_nodes =
            [\<lparr>mn_node_id = 1, mn_x = 0, mn_y = 0, mn_area_id = 101\<rparr>,
             \<lparr>mn_node_id = 3, mn_x = 10, mn_y = 10, mn_area_id = 103\<rparr>],
          total_distance = 14.14, total_risk = 0\<rparr>"
  by (simp add: find_safe_path_def square_graph_sel square_resolve square_index square_search_0
      square_walk_0 square_map_nodes square_edges_def)

lemma square_path_1:
  "find_safe_path (square_graph 1) 101 103 =
     Inr \<lparr>path_nodes =
            [\<lparr>mn_node_id = 1, mn_x = 0, mn_y = 0, mn_area_id = 101\<rparr>,
             \<lparr>mn_node_id = 2, mn_x = 10, mn_y = 0, mn_area_id = 102\<rparr>,
             \<lparr>mn_node_id = 3, mn_x = 10, mn_y = 10, mn_area_id = 103\<rparr>],
          total_distance = 20, total_risk = 0\<rparr>"
  by (simp add: find_safe_path_def square_graph_sel square_resolve square_index square_search_1
      square_walk_1 square_map_nodes square_edges_def)

lemma square_map_risky_eq: "set_edge_risk 4 1 square_map = square_graph 1"
  by (simp add: square_map_eq set_edge_risk_def square_graph_def square_edges_def)

lemma twin_map_eq: "twin_map = \<lparr>nodes = twin_nodes, edges = twin_edges\<rparr>"
  by (simp add: twin_map_def twin_nodes_def twin_edges_def add_node_def add_edge_def
      path_planning_init_def MAX_NODES_def MAX_EDGES_def)

lemma twin_sel: "nodes twin_map = twin_nodes" "edges twin_map = twin_edges"
  by (simp_all add: twin_map_eq)

lemma reachable_twin_map: "reachable twin_map"
  unfolding twin_map_def by (intro reachable.node reachable.edge reachable.init)

lemma twin_facts:
  "heuristic twin_nodes (Suc 0) 2 = 5" "heuristic twin_nodes 2 2 = 0"
  "find_node_index_by_id twin_nodes 2 = Some (Suc 0)"
  "find_node_index_by_id twin_nodes 3 = Some 2"
  "node_id (twin_nodes ! Suc 0) = 2"
  "length twin_nodes = 3"
  "resolve_areas twin_nodes 101 103 (- 1, - 1) = (2, 3)"
  by (simp_all add: heuristic_def twin_nodes_def)

lemma upt_3: "[0 ..< 3] = [0, Suc 0, 2]"
  by (simp add: upt_rec)

lemma twin_search: "astar_loop twin_map 2 (astar_init twin_nodes (Suc 0) 2) = Inr twin_final"
proof -
  have a: "lowest_f_open (length (nodes twin_map)) (astar_init twin_nodes (Suc 0) 2) = Some (Suc 0)"
    by (simp add: search_eval twin_sel twin_facts upt_3)
  have b: "explore_neighbors twin_map (Suc 0) 2 (close_node (Suc 0) (astar_init twin_nodes (Suc 0) 2))
      = twin_final"
    by (simp add: search_eval twin_sel twin_facts twin_edges_def twin_final_def)
  have c: "lowest_f_open (length (nodes twin_map)) twin_final = Some 2"
    by (simp add: search_eval twin_sel twin_facts upt_3 twin_final_def)
  show ?thesis
    apply (subst astar_loop.simps)
    apply (simp add: a b)
    apply (subst astar_loop.simps)
    apply (simp add: c)
    done
qed

lemma twin_path: "find_safe_path twin_map 101 103 = Inr twin_route"
proof -
  have w: "reconstruct MAX_PATH_LENGTH (prev_node_idx twin_final) (Some 2) [] = Inr [Suc 0, 2]"
    by (simp add: MAX_PATH_LENGTH_def MAP_WIDTH_def MAP_HEIGHT_def twin_final_def reconstruct_pos)
  have n: "to_map_node (twin_nodes ! Suc 0) = \<lparr>mn_node_id = 2, mn_x = 5, mn_y = 0, mn_area_id = 101\<rparr>"
    "to_map_node (twin_nodes ! 2) = \<lparr>mn_node_id = 3, mn_x = 10, mn_y = 0, mn_area_id = 103\<rparr>"
    by (simp_all add: twin_nodes_def to_map_node_def c_trunc_def)
  show ?thesis
    by (simp add: find_safe_path_def twin_sel twin_facts twin_search w n twin_edges_def
        twin_route_def)
qed

lemma parallel_map_eq: "parallel_map = \<lparr>nodes = parallel_nodes, edges = parallel_edges\<rparr>"
  by (simp add: parallel_map_def parallel_nodes_def parallel_edges_def add_node_def add_edge_def
      path_planning_init_def MAX_NODES_def MAX_EDGES_def)

lemma parallel_sel: "nodes parallel_map = parallel_nodes" "edges parallel_map = parallel_edges"
  by (simp_all add: parallel_map_eq)

lemma reachable_parallel_map: "reachable parallel_map"
  unfolding parallel_map_def by (intro reachable.node reachable.edge reachable.init)

lemma parallel_facts:
  "heuristic parallel_nodes 0 (Suc 0) = 1" "heuristic parallel_nodes (Suc 0) (Suc 0) = 0"
  "find_node_index_by_id parallel_nodes 1 = Some 0"
  "find_node_index_by_id parallel_nodes 2 = Some (Suc 0)"
  "node_id (parallel_nodes ! 0) = 1"
  "length parallel_nodes = 2"
  "resolve_areas parallel_nodes 1 2 (- 1, - 1) = (1, 2)"
  by (simp_all add: heuristic_def parallel_nodes_def)

lemma upt_2: "[0 ..< 2] = [0, Suc 0]"
  by (simp add: upt_rec)

lemma parallel_search:
  "astar_loop parallel_map (Suc 0) (astar_init parallel_nodes 0 (Suc 0)) = Inr parallel_final"
proof -
  have a: "lowest_f_open (length (nodes parallel_map)) (astar_init parallel_nodes 0 (Suc 0)) = Some 0"
    by (simp add: search_eval parallel_sel parallel_facts upt_2)
  have b: "explore_neighbors parallel_map 0 (Suc 0) (close_node 0 (astar_init parallel_nodes 0 (Suc 0)))
      = parallel_final"
    by (simp add: search_eval parallel_sel parallel_facts parallel_edges_def parallel_final_def)
  have c: "lowest_f_open (length (nodes parallel_map)) parallel_final = Some (Suc 0)"
    by (simp add: search_eval parallel_sel parallel_facts upt_2 parallel_final_def)
  show ?thesis
    apply (subst astar_loop.simps)
    apply (simp add: a b)
    apply (subst astar_loop.simps)
    apply (simp add: c)
    done
qed

lemma parallel_path:
  "find_safe_path parallel_map 1 2 =
     Inr \<lparr>path_nodes =
            [\<lparr>mn_node_id = 1, mn_x = 0, mn_y = 0, mn_area_id = 1\<rparr>,
             \<lparr>mn_node_id = 2, mn_x = 1, mn_y = 0, mn_area_id = 2\<rparr>],
          total_distance = 5, total_risk = 0\<rparr>"
proof -
  have w: "reconstruct MAX_PATH_LENGTH (prev_node_idx parallel_final) (Some (Suc 0)) [] = Inr [0, Suc 0]"
    by (simp add: MAX_PATH_LENGTH_def MAP_WIDTH_def MAP_HEIGHT_def parallel_final_def reconstruct_pos)
  have n: "to_map_node (parallel_nodes ! 0) = \<lparr>mn_node_id = 1, mn_x = 0, mn_y = 0, mn_area_id = 1\<rparr>"
    "to_map_node (parallel_nodes ! Suc 0) = \<lparr>mn_node_id = 2, mn_x = 1, mn_y = 0, mn_area_id = 2\<rparr>"
    by (simp_all add: parallel_nodes_def to_map_node_def c_trunc_def)
  show ?thesis
    by (simp add: find_safe_path_def parallel_sel parallel_facts parallel_search w n parallel_edges_def)
qed

section \<open>Risk-weighted edge selection\<close>

text \<open>C1. The search weighs an edge with \<open>distance \<times> (1 + 10 \<times> risk_factor)\<close>: in
  the arrays of every search that ends at its goal, the score of a node with a predecessor
  is the score of the predecessor plus that weight of an edge from the predecessor to the
  node. On the square map with every risk factor 0, the path from area 101 to area 103 is
  the diagonal, nodes 1 and 3, with total distance 14.14. With the risk factor of the
  diagonal set to 1 and every other risk factor 0, the diagonal costs 155.54 and the path
  is the route through node 2, of total distance 20.\<close>

theorem square_map_routes:
  "(astar_loop g v (astar_init (nodes g) u v) = Inr st \<and> prev_node_idx st i = Some p \<longrightarrow>
      (\<exists>e \<in> set (edges g).
         start_node e = node_id (nodes g ! p) \<and> end_node e = node_id (nodes g ! i) \<and>
         g_score st i = g_score st p + distance e * (1 + 10 * risk_factor e))) \<and>
   find_safe_path square_map 101 103 =
     Inr \<lparr>path_nodes =
            [\<lparr>mn_node_id = 1, mn_x = 0, mn_y = 0, mn_area_id = 101\<rparr>,
             \<lparr>mn_node_id = 3, mn_x = 10, mn_y = 10, mn_area_id = 103\<rparr>],
          total_distance = 14.14, total_risk = 0\<rparr> \<and>
   edge_cost (edges (set_edge_risk 4 1 square_map) ! 4) = 155.54 \<and>
   find_safe_path (set_edge_risk 4 1 square_map) 101 103 =
     Inr \<lparr>path_nodes =
            [\<lparr>mn_node_id = 1, mn_x = 0, mn_y = 0, mn_area_id = 101\<rparr>,
             \<lparr>mn_node_id = 2, mn_x = 10, mn_y = 0, mn_area_id = 102\<rparr>,
             \<lparr>mn_node_id = 3, mn_x = 10, mn_y = 10, mn_area_id = 103\<rparr>],
          total_distance = 20, total_risk = 0\<rparr>"
proof -
  have r: "set_edge_risk 4 1 square_map = square_graph 1"
    by (rule square_map_risky_eq)
  have a: "\<exists>e \<in> set (edges g).
         start_node e = node_id (nodes g ! p) \<and> end_node e = node_id (nodes g ! i) \<and>
         g_score st i = g_score st p + distance e * (1 + 10 * risk_factor e)"
    if "astar_loop g v (astar_init (nodes g) u v) = Inr st" "prev_node_idx st i = Some p"
  proof -
    from astar_loop_score [OF score_inv_init that(1)] have "score_inv g st" .
    with that(2) show ?thesis
      by (simp add: score_inv_def edge_cost_def risk_weight_def)
  qed
  have b: "find_safe_path square_map 101 103 =
     Inr \<lparr>path_nodes =
            [\<lparr>mn_node_id = 1, mn_x = 0, mn_y = 0, mn_area_id = 101\<rparr>,
             \<lparr>mn_node_id = 3, mn_x = 10, mn_y = 10, mn_area_id = 103\<rparr>],
          total_distance = 14.14, total_risk = 0\<rparr>"
    unfolding square_map_eq by (rule square_path_0)
  have c: "edge_cost (edges (set_edge_risk 4 1 square_map) ! 4) = 155.54"
    unfolding r by (simp add: square_graph_sel square_edges_def edge_cost_def risk_weight_def)
  have d: "find_safe_path (set_edge_risk 4 1 square_map) 101 103 =
     Inr \<lparr>path_nodes =
            [\<lparr>mn_node_id = 1, mn_x = 0, mn_y = 0, mn_area_id = 101\<rparr>,
             \<lparr>mn_node_id = 2, mn_x = 10, mn_y = 0, mn_area_id = 102\<rparr>,
             \<lparr>mn_node_id = 3, mn_x = 10, mn_y = 10, mn_area_id = 103\<rparr>],
          total_distance = 20, total_risk = 0\<rparr>"
    unfolding r by (rule square_path_1)
  from a b c d show ?thesis by (intro conjI impI) blast+
qed

theorem square_map_routes_witness:
  "astar_loop (square_graph 1) 2 (astar_init (nodes (square_graph 1)) 0 2) = Inr square_second \<and>
   prev_node_idx square_second 2 = Some (Suc 0) \<and>
   g_score square_second (Suc 0) = 10 \<and> g_score square_second 2 = 20 \<and>
   (\<exists>e \<in> set (edges (square_graph 1)).
      start_node e = node_id (nodes (square_graph 1) ! Suc 0) \<and>
      end_node e = node_id (nodes (square_graph 1) ! 2) \<and>
      g_score square_second 2
        = g_score square_second (Suc 0) + distance e * (1 + 10 * risk_factor e))"
proof -
  have s: "astar_loop (square_graph 1) 2 (astar_init (nodes (square_graph 1)) 0 2)
      = Inr square_second"
    by (simp add: square_graph_sel square_search_1)
  have p: "prev_node_idx square_second 2 = Some (Suc 0)"
    "g_score square_second (Suc 0) = 10" "g_score square_second 2 = 20"
    by (simp_all add: square_second_def)
  from s p square_map_routes [of "square_graph 1" 2 0 square_second 2 "Suc 0"]
  show ?thesis by blast
qed

section \<open>Which node stands for an area\<close>

text \<open>C2, as stated, fails: on a map whose nodes 1 and 2 both carry area id 101, in this
  order, the path from area 101 starts at node 2, not at node 1, the first node of the
  area.\<close>

theorem path_starts_at_later_node:
  "reachable twin_map \<and>
   find_safe_path twin_map 101 103 = Inr twin_route \<and>
   hd (nodes_in_area (nodes twin_map) 101)
     = \<lparr>node_id = 1, area_id = 101, node_x = 0, node_y = 0\<rparr> \<and>
   hd (path_nodes twin_route) = \<lparr>mn_node_id = 2, mn_x = 5, mn_y = 0, mn_area_id = 101\<rparr> \<and>
   hd (path_nodes twin_route) \<noteq> to_map_node (hd (nodes_in_area (nodes twin_map) 101))"
  by (simp add: reachable_twin_map twin_path twin_sel twin_nodes_def nodes_in_area_def
      twin_route_def to_map_node_def)

text \<open>C2, amended. The lookup assigns at every match and does not stop, so an area id
  stands for the last node of the node array that carries it. On a store whose node ids
  are distinct, as they are in every store that the operations produce, every path that
  \<^verbatim>\<open>find_safe_path\<close> returns starts at the last node of the start area and ends at the
  last node of the end area.\<close>

theorem path_joins_last_nodes_of_areas:
  assumes ok: "find_safe_path g s e = Inr p"
    and d: "distinct (map node_id (nodes g))"
  shows "nodes_in_area (nodes g) s \<noteq> [] \<and> nodes_in_area (nodes g) e \<noteq> [] \<and>
         path_nodes p \<noteq> [] \<and>
         hd (path_nodes p) = to_map_node (last (nodes_in_area (nodes g) s)) \<and>
         last (path_nodes p) = to_map_node (last (nodes_in_area (nodes g) e))"
proof -
  let ?ns = "nodes g"
  obtain sid eid where r: "resolve_areas ?ns s e (- 1, - 1) = (sid, eid)"
    by (cases "resolve_areas ?ns s e (- 1, - 1)")
  from ok r have ids: "sid \<noteq> - 1" "eid \<noteq> - 1"
    by (auto simp: find_safe_path_def split: if_splits)
  from r ids have ne: "nodes_in_area ?ns s \<noteq> []" "nodes_in_area ?ns e \<noteq> []"
    and sid: "sid = node_id (last (nodes_in_area ?ns s))"
    and eid: "eid = node_id (last (nodes_in_area ?ns e))"
    by (auto simp: resolve_areas_last split: if_splits)
  from ok r ids obtain u v where
    u: "find_node_index_by_id ?ns sid = Some u" and v: "find_node_index_by_id ?ns eid = Some v"
    by (auto simp: find_safe_path_def split: option.splits)
  from ok r ids u v obtain st where st: "astar_loop g v (astar_init ?ns u v) = Inr st"
    by (auto simp: find_safe_path_def split: sum.splits)
  from ok r ids u v st obtain idxs where
    idxs: "reconstruct MAX_PATH_LENGTH (prev_node_idx st) (Some v) [] = Inr idxs"
    by (auto simp: find_safe_path_def split: sum.splits)
  from ok r ids u v st idxs have pn: "path_nodes p = map (\<lambda>i. to_map_node (?ns ! i)) idxs"
    by (auto simp: find_safe_path_def Let_def split: prod.splits)
  from astar_loop_inv [OF search_inv_init st] have inv: "search_inv u st" "open_set st v"
    by simp_all
  have "\<exists>mid. idxs = u # mid \<and> (\<exists>pre. idxs = pre @ v # [])"
    using reconstruct_ends [OF inv(1) _ idxs] inv(2) by blast
  then obtain mid pre where i: "idxs = u # mid" "idxs = pre @ [v]" by blast
  from find_node_index_Some [OF u] sid
  have "?ns ! u = last (nodes_in_area ?ns s)"
    by (intro distinct_node_id_nth [OF d] last_nodes_in_area_mem ne) simp_all
  moreover from find_node_index_Some [OF v] eid
  have "?ns ! v = last (nodes_in_area ?ns e)"
    by (intro distinct_node_id_nth [OF d] last_nodes_in_area_mem ne) simp_all
  moreover from i(1) pn have "path_nodes p \<noteq> []" "hd (path_nodes p) = to_map_node (?ns ! u)"
    by simp_all
  moreover from i(2) pn have "last (path_nodes p) = to_map_node (?ns ! v)" by simp
  ultimately show ?thesis using ne by simp
qed

theorem path_joins_last_nodes_of_areas_witness:
  "find_safe_path twin_map 101 103 = Inr twin_route \<and>
   reachable twin_map \<and> distinct (map node_id (nodes twin_map)) \<and>
   last (nodes_in_area (nodes twin_map) 101)
     = \<lparr>node_id = 2, area_id = 101, node_x = 5, node_y = 0\<rparr> \<and>
   hd (path_nodes twin_route) = to_map_node (last (nodes_in_area (nodes twin_map) 101)) \<and>
   last (path_nodes twin_route) = to_map_node (last (nodes_in_area (nodes twin_map) 103))"
proof -
  have d: "distinct (map node_id (nodes twin_map))"
    using reachable_twin_map by (rule reachable_distinct_ids)
  have l: "last (nodes_in_area (nodes twin_map) 101)
      = \<lparr>node_id = 2, area_id = 101, node_x = 5, node_y = 0\<rparr>"
    by (simp add: twin_sel twin_nodes_def nodes_in_area_def)
  from path_joins_last_nodes_of_areas [OF twin_path d] twin_path reachable_twin_map d l
  show ?thesis by blast
qed

section \<open>Reported metrics\<close>

text \<open>C6. The map with two edges from node 1 to node 2 is a store that the insert
  operations produce. On it the search from area 1 to area 2 reaches node 2 over the second
  edge (distance 1): the score of node 2 is 1, the cost of that edge, while the first edge
  costs 5. The returned path reports the total distance 5, the distance of the first edge
  of the array that joins the two nodes.\<close>

theorem parallel_edges_reported_metrics:
  "reachable parallel_map \<and>
   find_safe_path parallel_map 1 2 =
     Inr \<lparr>path_nodes =
            [\<lparr>mn_node_id = 1, mn_x = 0, mn_y = 0, mn_area_id = 1\<rparr>,
             \<lparr>mn_node_id = 2, mn_x = 1, mn_y = 0, mn_area_id = 2\<rparr>],
          total_distance = 5, total_risk = 0\<rparr> \<and>
   astar_loop parallel_map (Suc 0) (astar_init (nodes parallel_map) 0 (Suc 0))
     = Inr parallel_final \<and>
   g_score parallel_final (Suc 0) = 1 \<and>
   prev_node_idx parallel_final (Suc 0) = Some 0 \<and>
   edge_cost (edges parallel_map ! 0) = 5 \<and>
   edge_cost (edges parallel_map ! 1) = 1 \<and>
   distance (edges parallel_map ! 1) = 1"
  by (simp add: reachable_parallel_map parallel_path parallel_search parallel_sel
      parallel_final_def parallel_edges_def edge_cost_def risk_weight_def)

end
